theory Spec2Isabelle
  imports Main
begin

section \<open>Text\<close>

text \<open>
  A Python \<open>str\<close> is a sequence of Unicode code points. The tracking document is read with
  \<open>encoding="utf-8"\<close>, so the check mark of the group lines is the single code point
  U+2705 and not its three bytes; a code point is therefore a natural number here.
\<close>

type_synonym ustring = "nat list"

definition u :: "string \<Rightarrow> ustring" where
  \<comment> \<open>an ASCII literal of the source as code points\<close>
  "u s = map of_char s"

definition CHECK :: nat where
  \<comment> \<open>the glyph U+2705 (white heavy check mark)\<close>
  "CHECK = 0x2705"

definition isspace :: "nat \<Rightarrow> bool" where
  \<comment> \<open>the characters \<open>str.strip()\<close> removes and the class \<open>\s\<close> of a \<open>str\<close> pattern
      (both are CPython's \<open>Py_UNICODE_ISSPACE\<close>)\<close>
  "isspace c \<longleftrightarrow>
     (0x9 \<le> c \<and> c \<le> 0xD) \<or> (0x1C \<le> c \<and> c \<le> 0x20) \<or> c = 0x85 \<or> c = 0xA0 \<or>
     c = 0x1680 \<or> (0x2000 \<le> c \<and> c \<le> 0x200A) \<or> c = 0x2028 \<or> c = 0x2029 \<or>
     c = 0x202F \<or> c = 0x205F \<or> c = 0x3000"

definition decimal_starts :: "nat list" where
  \<comment> \<open>the zero digit of every run of ten decimal digits (category Nd, Unicode 14)\<close>
  "decimal_starts =
     [48, 1632, 1776, 1984, 2406, 2534, 2662, 2790, 2918, 3046, 3174, 3302, 3430, 3558,
      3664, 3792, 3872, 4160, 4240, 6112, 6160, 6470, 6608, 6784, 6800, 6992, 7088, 7232,
      7248, 42528, 43216, 43264, 43472, 43504, 43600, 44016, 65296, 66720, 68912, 69734,
      69872, 69942, 70096, 70384, 70736, 70864, 71248, 71360, 71472, 71904, 72016, 72784,
      73040, 73120, 92768, 92864, 93008, 120782, 120792, 120802, 120812, 120822, 123200,
      123632, 125264, 130032]"

definition todecimal :: "nat \<Rightarrow> nat option" where
  \<comment> \<open>the value of a decimal digit, \<open>None\<close> for any other character\<close>
  "todecimal c =
     (case find (\<lambda>z. z \<le> c \<and> c < z + 10) decimal_starts of
        None \<Rightarrow> None
      | Some z \<Rightarrow> Some (c - z))"

definition isdecimal :: "nat \<Rightarrow> bool" where
  \<comment> \<open>the class \<open>\d\<close> of a \<open>str\<close> pattern\<close>
  "isdecimal c \<longleftrightarrow> todecimal c \<noteq> None"

definition is_ident :: "nat \<Rightarrow> bool" where
  \<comment> \<open>the class \<open>[A-Za-z0-9_.-]\<close>\<close>
  "is_ident c \<longleftrightarrow>
     (65 \<le> c \<and> c \<le> 90) \<or> (97 \<le> c \<and> c \<le> 122) \<or> (48 \<le> c \<and> c \<le> 57) \<or>
     c = 95 \<or> c = 46 \<or> c = 45"

definition strip :: "ustring \<Rightarrow> ustring" where
  \<comment> \<open>\<open>str.strip()\<close>: leading and trailing whitespace removed\<close>
  "strip s = rev (dropWhile isspace (rev (dropWhile isspace s)))"

definition startswith :: "ustring \<Rightarrow> ustring \<Rightarrow> bool" where
  "startswith s p \<longleftrightarrow> take (length p) s = p"


section \<open>The pattern \<open>GROUP_LINE\<close>\<close>

text \<open>
  \<open>GROUP_LINE = re.compile(r"^(?:CHECK\s*)?(?:\d+/\d+\s+)?([A-Za-z0-9_.-]+)$")\<close>

  The \<open>re\<close> module is a backtracking matcher. A piece of a pattern is modelled as the
  function that, applied to the text still to be read, lists what is left after each way
  the piece can match, in the order in which the matcher tries them (a greedy repetition
  tries the longest run first, a greedy \<open>?\<close> tries its body before skipping it).
  \<open>re.match\<close> anchors at the start of the text and returns the first way that reaches
  the end of the pattern.
\<close>

type_synonym matcher = "ustring \<Rightarrow> ustring list"

definition re_lit :: "nat \<Rightarrow> matcher" where
  "re_lit c s = (case s of [] \<Rightarrow> [] | x # xs \<Rightarrow> if x = c then [xs] else [])"

fun re_star :: "(nat \<Rightarrow> bool) \<Rightarrow> matcher" where
  "re_star p [] = [[]]"
| "re_star p (x # xs) = (if p x then re_star p xs @ [x # xs] else [x # xs])"

definition re_plus :: "(nat \<Rightarrow> bool) \<Rightarrow> matcher" where
  "re_plus p s = (case s of [] \<Rightarrow> [] | x # xs \<Rightarrow> if p x then re_star p xs else [])"

definition re_seq :: "matcher \<Rightarrow> matcher \<Rightarrow> matcher" where
  "re_seq m1 m2 s = concat (map m2 (m1 s))"

definition re_opt :: "matcher \<Rightarrow> matcher" where
  "re_opt m s = m s @ [s]"

definition re_end :: "ustring \<Rightarrow> bool" where
  \<comment> \<open>\<open>$\<close> without \<open>re.MULTILINE\<close>: at the end of the text, or just before a newline that
      ends the text\<close>
  "re_end s \<longleftrightarrow> s = [] \<or> s = [10]"

definition check_part :: matcher where
  \<comment> \<open>\<open>(?:CHECK\s*)?\<close>\<close>
  "check_part = re_opt (re_seq (re_lit CHECK) (re_star isspace))"

definition ratio_part :: matcher where
  \<comment> \<open>\<open>(?:\d+/\d+\s+)?\<close>\<close>
  "ratio_part =
     re_opt (re_seq (re_plus isdecimal)
               (re_seq (re_lit 47) (re_seq (re_plus isdecimal) (re_plus isspace))))"

definition ident_part :: "ustring \<Rightarrow> ustring list" where
  \<comment> \<open>\<open>([A-Za-z0-9_.-]+)$\<close> at the text \<open>s\<close>: the texts group 1 can capture\<close>
  "ident_part s =
     map (\<lambda>r. take (length s - length r) s) (filter re_end (re_plus is_ident s))"

definition group_line_matches :: "ustring \<Rightarrow> ustring list" where
  \<comment> \<open>group 1 of every way the whole pattern matches, in the matcher's order\<close>
  "group_line_matches s = concat (map ident_part (re_seq check_part ratio_part s))"

definition GROUP_LINE_match :: "ustring \<Rightarrow> ustring option" where
  \<comment> \<open>\<open>GROUP_LINE.match(line)\<close>, reduced to \<open>m.group(1)\<close>; \<open>None\<close> when there is no match\<close>
  "GROUP_LINE_match s = (case group_line_matches s of [] \<Rightarrow> None | g # _ \<Rightarrow> Some g)"


section \<open>\<open>parse_groups\<close>\<close>

datatype exn =
    CalledProcessError | FileNotFoundError | OSError | ParseError | ValueError | LookupError
  | UnicodeEncodeError | SystemExit int

definition parse_step :: "ustring list \<Rightarrow> ustring \<Rightarrow> ustring list" where
  \<comment> \<open>the body of the loop over the lines: the list \<open>groups\<close> after one more line\<close>
  "parse_step groups line0 =
     (let line = strip line0 in
      if line = [] \<or> startswith line (u ''#'') then groups
      else case GROUP_LINE_match line of
             Some g \<Rightarrow> groups @ [g]
           | None \<Rightarrow> groups)"

definition parse_groups :: "ustring list option \<Rightarrow> exn + ustring list" where
  \<comment> \<open>the argument is what \<open>open(path)\<close> gives: the lines of the document, or \<open>None\<close>
      when the file cannot be opened, and \<open>open\<close> raises\<close>
  "parse_groups doc =
     (case doc of
        None \<Rightarrow> Inl OSError
      | Some lines \<Rightarrow> Inr (foldl parse_step [] lines))"


section \<open>Integers as text\<close>

definition int_max_str_digits :: nat where
  \<comment> \<open>\<open>sys.get_int_max_str_digits()\<close>: the interpreter's limit on the digits of a conversion
      between \<open>int\<close> and \<open>str\<close>; 4300 is its default, which the script does not change\<close>
  "int_max_str_digits = 4300"

fun digits :: "nat \<Rightarrow> ustring" where
  "digits n = (if n < 10 then [48 + n] else digits (n div 10) @ [48 + n mod 10])"

declare digits.simps [simp del]

definition decimal :: "int \<Rightarrow> ustring" where
  \<comment> \<open>the decimal text of an integer: a minus sign when it is negative, then its digits\<close>
  "decimal i = (if i < 0 then 45 # digits (nat (- i)) else digits (nat i))"

definition fits :: "int \<Rightarrow> bool" where
  \<comment> \<open>the integer has no more digits than the limit\<close>
  "fits i \<longleftrightarrow> length (digits (nat \<bar>i\<bar>)) \<le> int_max_str_digits"

definition py_str :: "int \<Rightarrow> exn + ustring" where
  \<comment> \<open>\<open>str(i)\<close>, which is what an f-string writes for an \<open>int\<close>: the decimal text, and
      \<open>ValueError\<close> when the integer has more digits than the limit\<close>
  "py_str i = (if fits i then Inr (decimal i) else Inl ValueError)"

fun dec_value :: "nat \<Rightarrow> ustring \<Rightarrow> nat option" where
  \<comment> \<open>the digits of an integer literal, read from the left; one underscore may stand
      between two digits\<close>
  "dec_value acc [] = None"
| "dec_value acc (c # cs) =
     (case todecimal c of
        None \<Rightarrow> None
      | Some d \<Rightarrow>
          (case cs of
             [] \<Rightarrow> Some (10 * acc + d)
           | x # xs \<Rightarrow>
               if x = 95 then dec_value (10 * acc + d) xs
               else dec_value (10 * acc + d) cs))"

definition int_space :: "nat \<Rightarrow> bool" where
  \<comment> \<open>the whitespace \<open>int\<close> accepts around a literal: that of \<open>str.strip()\<close> without the
      four separators U+001C to U+001F\<close>
  "int_space c \<longleftrightarrow> isspace c \<and> (c < 0x1C \<or> 0x1F < c)"

definition int_literal :: "ustring \<Rightarrow> exn + nat" where
  \<comment> \<open>the literal after its sign: \<open>ValueError\<close> when it is no literal, and when it has
      more digits (leading zeros count, underscores do not) than the limit\<close>
  "int_literal s =
     (case dec_value 0 s of
        None \<Rightarrow> Inl ValueError
      | Some n \<Rightarrow>
          if int_max_str_digits < length (filter (\<lambda>c. c \<noteq> 95) s) then Inl ValueError
          else Inr n)"

definition py_int :: "ustring \<Rightarrow> exn + int" where
  \<comment> \<open>\<open>int(s)\<close> for a \<open>str\<close>: surrounding whitespace is dropped, a sign may come first,
      anything but an integer literal within the limit raises \<open>ValueError\<close>\<close>
  "py_int s =
     (case rev (dropWhile int_space (rev (dropWhile int_space s))) of
        [] \<Rightarrow> Inl ValueError
      | c # r \<Rightarrow>
          if c = 45 then
            (case int_literal r of Inl e \<Rightarrow> Inl e | Inr n \<Rightarrow> Inr (- int n))
          else if c = 43 then
            (case int_literal r of Inl e \<Rightarrow> Inl e | Inr n \<Rightarrow> Inr (int n))
          else
            (case int_literal (c # r) of Inl e \<Rightarrow> Inl e | Inr n \<Rightarrow> Inr (int n)))"


section \<open>\<open>run_group\<close>\<close>

text \<open>
  \<open>run_group\<close> talks to three things outside the program: the results directory it
  creates, the \<open>dotnet test\<close> process it starts, and the TRX file it reads afterwards.
  What they answer in one call is the environment of that call.
\<close>

datatype run_outcome =
    Exited int    \<comment> \<open>the process ran and ended with this exit code\<close>
  | Not_Started   \<comment> \<open>the process could not be started (no \<open>dotnet\<close> on the path)\<close>

type_synonym attrib = "ustring \<rightharpoonup> ustring"

datatype trx_file =
    Absent                     \<comment> \<open>\<open>os.path.exists(trx_path)\<close> is false\<close>
  | Unreadable                 \<comment> \<open>the path exists and cannot be read as a file\<close>
  | Malformed                  \<comment> \<open>the file is not well-formed XML: the parser raises
                                   \<open>ParseError\<close>\<close>
  | Multibyte_Encoding         \<comment> \<open>the XML declaration names a multi-byte encoding, which
                                   the parser refuses with \<open>ValueError\<close>\<close>
  | Unknown_Encoding           \<comment> \<open>the XML declaration names an encoding that does not
                                   exist: \<open>LookupError\<close>\<close>
  | Document "attrib option"   \<comment> \<open>the file is parsed, with what
        \<open>root.find(".//t:ResultSummary/t:Counters", ns)\<close> finds: \<open>None\<close>, or the
        attributes of the first such node\<close>

record group_env =
  makedirs_ok :: bool     \<comment> \<open>\<open>os.makedirs(results_dir, exist_ok=True)\<close> succeeds\<close>
  runner :: run_outcome   \<comment> \<open>what becomes of the \<open>dotnet test\<close> process\<close>
  trx :: trx_file         \<comment> \<open>what is at \<open>trx_path\<close> once the process is over\<close>

definition subprocess_run :: "run_outcome \<Rightarrow> exn + unit" where
  \<comment> \<open>\<open>subprocess.run(cmd, check=True, ...)\<close>\<close>
  "subprocess_run r =
     (case r of
        Not_Started \<Rightarrow> Inl FileNotFoundError
      | Exited code \<Rightarrow> if code \<noteq> 0 then Inl CalledProcessError else Inr ())"

definition invoke_runner :: "run_outcome \<Rightarrow> exn + unit" where
  \<comment> \<open>lines 60 to 64: the \<open>try\<close> around \<open>subprocess.run\<close>, which catches
      \<open>CalledProcessError\<close> and nothing else\<close>
  "invoke_runner r =
     (case subprocess_run r of
        Inl CalledProcessError \<Rightarrow> Inr ()
      | Inl e \<Rightarrow> Inl e
      | Inr x \<Rightarrow> Inr x)"

definition ET_parse :: "trx_file \<Rightarrow> exn + attrib option" where
  \<comment> \<open>\<open>ET.parse(trx_path).getroot()\<close> followed by \<open>root.find(...)\<close>\<close>
  "ET_parse f =
     (case f of
        Absent \<Rightarrow> Inl FileNotFoundError
      | Unreadable \<Rightarrow> Inl OSError
      | Malformed \<Rightarrow> Inl ParseError
      | Multibyte_Encoding \<Rightarrow> Inl ValueError
      | Unknown_Encoding \<Rightarrow> Inl LookupError
      | Document summary \<Rightarrow> Inr summary)"

definition get :: "attrib \<Rightarrow> ustring \<Rightarrow> ustring \<Rightarrow> ustring" where
  \<comment> \<open>\<open>dict.get(key, default)\<close>\<close>
  "get d k dflt = (case d k of None \<Rightarrow> dflt | Some v \<Rightarrow> v)"

definition read_summary :: "trx_file \<Rightarrow> exn + int \<times> int \<times> int" where
  \<comment> \<open>the body of the \<open>try\<close> of lines 69 to 75: \<open>(passed, failed, skipped)\<close> when it ends\<close>
  "read_summary f =
     (case ET_parse f of
        Inl e \<Rightarrow> Inl e
      | Inr None \<Rightarrow> Inr (0, 0, 0)
      | Inr (Some a) \<Rightarrow>
          (case py_int (get a (u ''passed'') (u ''0'')) of
             Inl e \<Rightarrow> Inl e
           | Inr passed \<Rightarrow>
               (case py_int (get a (u ''failed'') (u ''0'')) of
                  Inl e \<Rightarrow> Inl e
                | Inr failed \<Rightarrow>
                    (case py_int (get a (u ''notExecuted'') (u ''0'')) of
                       Inl e \<Rightarrow> Inl e
                     | Inr skipped \<Rightarrow> Inr (passed, failed, skipped)))))"

definition read_counters :: "trx_file \<Rightarrow> exn + int \<times> int \<times> int" where
  \<comment> \<open>lines 66 to 77: \<open>(passed, failed, skipped)\<close> after the \<open>if os.path.exists\<close>.
      \<open>ParseError\<close> can only come from \<open>ET.parse\<close>, before any of the three is assigned,
      so when it is caught they still are 0\<close>
  "read_counters f =
     (if f = Absent then Inr (0, 0, 0)
      else case read_summary f of
             Inl ParseError \<Rightarrow> Inr (0, 0, 0)
           | Inl e \<Rightarrow> Inl e
           | Inr r \<Rightarrow> Inr r)"

definition run_group :: "group_env \<Rightarrow> ustring \<Rightarrow> exn + ustring \<times> int \<times> int \<times> int" where
  \<comment> \<open>the paths and the command line of lines 47 to 59 decide which file and which process
      the environment is about; they raise nothing and are not part of the result\<close>
  "run_group env grp =
     (if \<not> makedirs_ok env then Inl OSError
      else case invoke_runner (runner env) of
             Inl e \<Rightarrow> Inl e
           | Inr _ \<Rightarrow>
               (case read_counters (trx env) of
                  Inl e \<Rightarrow> Inl e
                | Inr (passed, failed, skipped) \<Rightarrow>
                    let total = passed + failed + skipped
                    in Inr (grp, passed, failed, total)))"


section \<open>\<open>main\<close>\<close>

record streams =
  stdout :: "ustring list"
  stderr :: "ustring list"

definition no_output :: streams where
  "no_output = \<lparr>stdout = [], stderr = []\<rparr>"

datatype cli =
    Run           \<comment> \<open>\<open>parser.parse_args()\<close> returns the two paths\<close>
  | Help          \<comment> \<open>\<open>--help\<close>: argparse prints the help to standard output and raises
                      \<open>SystemExit(0)\<close>\<close>
  | Usage_Error   \<comment> \<open>an argument argparse refuses: it prints the usage to the diagnostic
                      stream and raises \<open>SystemExit(2)\<close>\<close>

datatype print_outcome =
    Printed        \<comment> \<open>the line is written to the stream\<close>
  | Encode_Error   \<comment> \<open>the encoding of the stream has no code for a character of the line
                       (the check mark on a standard output that is not UTF-8):
                       \<open>print\<close> raises \<open>UnicodeEncodeError\<close> and writes nothing\<close>
  | Write_Error    \<comment> \<open>the stream cannot be written to: \<open>print\<close> raises \<open>OSError\<close>\<close>

text \<open>
  The world \<open>main\<close> runs in: what the command line is, what is behind the two paths, and
  what becomes of each line it prints.
\<close>

record world =
  argv :: cli
  argparse_text :: "ustring list"     \<comment> \<open>what argparse prints when it does not return\<close>
  document :: "ustring list option"   \<comment> \<open>the lines of the file behind \<open>--groups\<close>, \<open>None\<close>
                                            when it cannot be opened\<close>
  runs :: "nat \<Rightarrow> group_env"           \<comment> \<open>the environment of the call of \<open>run_group\<close>
                                            in the iteration with this \<open>idx\<close>\<close>
  stdout_print :: "nat \<Rightarrow> ustring \<Rightarrow> print_outcome"
                                      \<comment> \<open>what becomes of \<open>print(summary)\<close> in the
                                            iteration with this \<open>idx\<close>\<close>
  stderr_print :: "nat \<Rightarrow> ustring \<Rightarrow> print_outcome"
                                      \<comment> \<open>the same for the progress notice of line 97, and
                                            with index 0 for the notice of line 91\<close>

definition parse_args :: "cli \<Rightarrow> exn + unit" where
  \<comment> \<open>lines 84 to 87\<close>
  "parse_args c =
     (case c of
        Run \<Rightarrow> Inr ()
      | Help \<Rightarrow> Inl (SystemExit 0)
      | Usage_Error \<Rightarrow> Inl (SystemExit 2))"

definition print_line :: "print_outcome \<Rightarrow> ustring list \<Rightarrow> ustring \<Rightarrow> exn + ustring list" where
  \<comment> \<open>\<open>print(line, file=stream)\<close>: the stream with the line added, or the exception\<close>
  "print_line outcome stream line =
     (case outcome of
        Printed \<Rightarrow> Inr (stream @ [line])
      | Encode_Error \<Rightarrow> Inl UnicodeEncodeError
      | Write_Error \<Rightarrow> Inl OSError)"

definition summary_line :: "ustring \<Rightarrow> int \<Rightarrow> int \<Rightarrow> int \<Rightarrow> exn + ustring" where
  \<comment> \<open>lines 99 to 102; the f-string of line 102 converts \<open>passed\<close>, then \<open>total\<close>\<close>
  "summary_line name passed failed total' =
     (if failed = 0 \<and> passed > 0 \<and> passed = total' then Inr (CHECK # u '' '' @ name)
      else case py_str passed of
             Inl e \<Rightarrow> Inl e
           | Inr p \<Rightarrow>
               (case py_str total' of
                  Inl e \<Rightarrow> Inl e
                | Inr t \<Rightarrow> Inr (p @ u ''/'' @ t @ u '' '' @ name)))"

definition progress_line :: "nat \<Rightarrow> nat \<Rightarrow> ustring \<Rightarrow> exn + ustring" where
  \<comment> \<open>the f-string of line 97\<close>
  "progress_line idx total_groups grp =
     (case py_str (int idx) of
        Inl e \<Rightarrow> Inl e
      | Inr i \<Rightarrow>
          (case py_str (int total_groups) of
             Inl e \<Rightarrow> Inl e
           | Inr n \<Rightarrow> Inr (u ''['' @ i @ u ''/'' @ n @ u ''] Running '' @ grp @ u ''...'')))"

definition iteration ::
  "world \<Rightarrow> nat \<Rightarrow> nat \<Rightarrow> ustring \<Rightarrow> streams \<Rightarrow> streams \<times> (exn + unit)"
where
  \<comment> \<open>the body of the loop, lines 97 to 104, for the group \<open>grp\<close> at index \<open>idx\<close>: the
      streams after it, and the exception when one leaves it. (The list \<open>summaries\<close> is
      appended to and never read.)\<close>
  "iteration w total_groups idx grp out =
     (case progress_line idx total_groups grp of
        Inl e \<Rightarrow> (out, Inl e)
      | Inr notice \<Rightarrow>
          (case print_line (stderr_print w idx notice) (stderr out) notice of
             Inl e \<Rightarrow> (out, Inl e)
           | Inr err \<Rightarrow>
               (case run_group (runs w idx) grp of
                  Inl e \<Rightarrow> (out\<lparr>stderr := err\<rparr>, Inl e)
                | Inr (name, passed, failed, total') \<Rightarrow>
                    (case summary_line name passed failed total' of
                       Inl e \<Rightarrow> (out\<lparr>stderr := err\<rparr>, Inl e)
                     | Inr summary \<Rightarrow>
                         (case print_line (stdout_print w idx summary) (stdout out) summary of
                            Inl e \<Rightarrow> (out\<lparr>stderr := err\<rparr>, Inl e)
                          | Inr lines \<Rightarrow> (out\<lparr>stderr := err, stdout := lines\<rparr>, Inr ()))))))"

fun run_all ::
  "world \<Rightarrow> nat \<Rightarrow> nat \<Rightarrow> ustring list \<Rightarrow> streams \<Rightarrow> streams \<times> (exn + unit)"
where
  \<comment> \<open>the loop of lines 96 to 104 from index \<open>idx\<close> on; an exception ends it, and what was
      printed before stays printed\<close>
  "run_all w total_groups idx [] out = (out, Inr ())"
| "run_all w total_groups idx (grp # rest) out =
     (case iteration w total_groups idx grp out of
        (out', Inl e) \<Rightarrow> (out', Inl e)
      | (out', Inr _) \<Rightarrow> run_all w total_groups (Suc idx) rest out')"

definition main :: "world \<Rightarrow> streams \<times> (exn + int)" where
  \<comment> \<open>what \<open>main\<close> prints, and the status it returns or the exception that leaves it\<close>
  "main w =
     (case parse_args (argv w) of
        Inl e \<Rightarrow>
          (if argv w = Help then \<lparr>stdout = argparse_text w, stderr = []\<rparr>
           else \<lparr>stdout = [], stderr = argparse_text w\<rparr>, Inl e)
      | Inr _ \<Rightarrow>
          (case parse_groups (document w) of
             Inl e \<Rightarrow> (no_output, Inl e)
           | Inr groups \<Rightarrow>
               if groups = [] then
                 (case print_line (stderr_print w 0 (u ''No groups found to run.'')) []
                         (u ''No groups found to run.'') of
                    Inl e \<Rightarrow> (no_output, Inl e)
                  | Inr err \<Rightarrow> (\<lparr>stdout = [], stderr = err\<rparr>, Inr 1))
               else
                 (case run_all w (length groups) 1 groups no_output of
                    (out, Inl e) \<Rightarrow> (out, Inl e)
                  | (out, Inr _) \<Rightarrow> (out, Inr 0))))"

definition exit_status :: "bool \<Rightarrow> exn + int \<Rightarrow> int" where
  \<comment> \<open>line 110, \<open>raise SystemExit(main())\<close>: the exit status of the process is the status
      \<open>main\<close> returns, or the status of the \<open>SystemExit\<close> that argparse raised; when another
      exception leaves \<open>main\<close>, the interpreter prints the traceback and the status is 1.
      All this when \<open>flushed\<close>: when the interpreter cannot flush the streams as it ends,
      the status is 120 instead\<close>
  "exit_status flushed r =
     (if \<not> flushed then 120
      else case r of
             Inl (SystemExit status) \<Rightarrow> status
           | Inl _ \<Rightarrow> 1
           | Inr status \<Rightarrow> status)"


section \<open>The shapes of a group line\<close>

definition is_identifier :: "ustring \<Rightarrow> bool" where
  "is_identifier t \<longleftrightarrow> t \<noteq> [] \<and> list_all is_ident t"

definition is_number :: "ustring \<Rightarrow> bool" where
  "is_number d \<longleftrightarrow> d \<noteq> [] \<and> list_all isdecimal d"

definition is_blank :: "ustring \<Rightarrow> bool" where
  "is_blank ws \<longleftrightarrow> list_all isspace ws"

text \<open>
  The four shapes of the document format as the specification lists them, each with its
  trailing identifier: the check mark and the ratio are each followed by whitespace.
\<close>

inductive recognized_shape :: "ustring \<Rightarrow> ustring \<Rightarrow> bool" where
  bare: "is_identifier t \<Longrightarrow> recognized_shape t t"
| checked: "ws \<noteq> [] \<Longrightarrow> is_blank ws \<Longrightarrow> is_identifier t \<Longrightarrow> recognized_shape (CHECK # ws @ t) t"
| ratio:
    "is_number p \<Longrightarrow> is_number q \<Longrightarrow> ws \<noteq> [] \<Longrightarrow> is_blank ws \<Longrightarrow> is_identifier t \<Longrightarrow>
     recognized_shape (p @ u ''/'' @ q @ ws @ t) t"
| checked_ratio:
    "ws \<noteq> [] \<Longrightarrow> is_blank ws \<Longrightarrow> is_number p \<Longrightarrow> is_number q \<Longrightarrow> ws' \<noteq> [] \<Longrightarrow> is_blank ws' \<Longrightarrow>
     is_identifier t \<Longrightarrow> recognized_shape (CHECK # ws @ p @ u ''/'' @ q @ ws' @ t) t"

text \<open>
  The shapes the pattern accepts: the same four, except that the whitespace after the
  check mark may be missing.
\<close>

inductive group_line_shape :: "ustring \<Rightarrow> ustring \<Rightarrow> bool" where
  bare: "is_identifier t \<Longrightarrow> group_line_shape t t"
| checked: "is_blank ws \<Longrightarrow> is_identifier t \<Longrightarrow> group_line_shape (CHECK # ws @ t) t"
| ratio:
    "is_number p \<Longrightarrow> is_number q \<Longrightarrow> ws \<noteq> [] \<Longrightarrow> is_blank ws \<Longrightarrow> is_identifier t \<Longrightarrow>
     group_line_shape (p @ u ''/'' @ q @ ws @ t) t"
| checked_ratio:
    "is_blank ws \<Longrightarrow> is_number p \<Longrightarrow> is_number q \<Longrightarrow> ws' \<noteq> [] \<Longrightarrow> is_blank ws' \<Longrightarrow>
     is_identifier t \<Longrightarrow> group_line_shape (CHECK # ws @ p @ u ''/'' @ q @ ws' @ t) t"

definition recognized_line :: "ustring \<Rightarrow> bool" where
  \<comment> \<open>the line has one of the four shapes of the specification\<close>
  "recognized_line l \<longleftrightarrow> (\<exists>t. recognized_shape l t)"

definition carries :: "attrib \<Rightarrow> ustring \<Rightarrow> int \<Rightarrow> bool" where
  \<comment> \<open>the counters node gives the attribute \<open>k\<close> the integer \<open>v\<close>: as its text, or by leaving
      the attribute out when \<open>v\<close> is 0\<close>
  "carries a k v \<longleftrightarrow> (case a k of None \<Rightarrow> v = 0 | Some t \<Rightarrow> py_int t = Inr v)"

definition written :: "attrib \<Rightarrow> ustring \<Rightarrow> int \<Rightarrow> bool" where
  \<comment> \<open>the counters node has the attribute \<open>k\<close> written as the decimal text of \<open>v\<close>, an
      integer within the limit of digits; or it leaves the attribute out, and \<open>v\<close> is 0\<close>
  "written a k v \<longleftrightarrow> (case a k of None \<Rightarrow> v = 0 | Some t \<Rightarrow> t = decimal v \<and> fits v)"


section \<open>Evaluation\<close>

lemmas text_defs = u_def CHECK_def isspace_def is_ident_def isdecimal_def todecimal_def
  decimal_starts_def strip_def startswith_def int_space_def

lemmas re_defs = re_lit_def re_plus_def re_seq_def re_opt_def re_end_def check_part_def
  ratio_part_def ident_part_def group_line_matches_def GROUP_LINE_match_def

lemmas run_defs = subprocess_run_def invoke_runner_def ET_parse_def get_def read_summary_def
  read_counters_def run_group_def py_int_def int_literal_def int_max_str_digits_def

lemmas str_defs = py_str_def fits_def decimal_def digits.simps int_max_str_digits_def

lemma py_int_zero: "py_int (u ''0'') = Inr 0"
  by (simp add: py_int_def int_literal_def int_max_str_digits_def text_defs)


section \<open>What \<open>GROUP_LINE\<close> matches\<close>

lemma re_star_self: "s \<in> set (re_star p s)"
  by (cases s) auto

lemma set_re_star: "set (re_star p s) = {r. \<exists>w. s = w @ r \<and> list_all p w}"
proof (induction s)
  case Nil
  then show ?case by auto
next
  case (Cons x xs)
  show ?case
  proof (intro set_eqI iffI)
    fix r assume "r \<in> set (re_star p (x # xs))"
    then consider "r = x # xs" | "p x" "r \<in> set (re_star p xs)"
      by (auto split: if_splits)
    then show "r \<in> {r. \<exists>w. x # xs = w @ r \<and> list_all p w}"
    proof cases
      case 1
      then have "x # xs = [] @ r \<and> list_all p []" by simp
      then show ?thesis by blast
    next
      case 2
      then obtain w where "xs = w @ r" "list_all p w" using Cons.IH by auto
      with 2 have "x # xs = (x # w) @ r \<and> list_all p (x # w)" by simp
      then show ?thesis by blast
    qed
  next
    fix r assume "r \<in> {r. \<exists>w. x # xs = w @ r \<and> list_all p w}"
    then obtain w where w: "x # xs = w @ r" "list_all p w" by auto
    show "r \<in> set (re_star p (x # xs))"
    proof (cases w)
      case Nil
      with w show ?thesis by (simp add: re_star_self)
    next
      case (Cons y ys)
      with w have "p x" "xs = ys @ r" "list_all p ys" by auto
      then have "r \<in> set (re_star p xs)" using Cons.IH by auto
      with \<open>p x\<close> show ?thesis by simp
    qed
  qed
qed

lemma set_re_plus: "set (re_plus p s) = {r. \<exists>w. s = w @ r \<and> w \<noteq> [] \<and> list_all p w}"
proof (cases s)
  case Nil
  then show ?thesis by (simp add: re_plus_def)
next
  case (Cons x xs)
  show ?thesis
  proof (intro set_eqI iffI)
    fix r assume "r \<in> set (re_plus p s)"
    with Cons have "p x" "r \<in> set (re_star p xs)"
      by (auto simp: re_plus_def split: if_splits)
    then obtain w where "xs = w @ r" "list_all p w" by (auto simp: set_re_star)
    with Cons \<open>p x\<close> have "s = (x # w) @ r \<and> x # w \<noteq> [] \<and> list_all p (x # w)" by simp
    then show "r \<in> {r. \<exists>w. s = w @ r \<and> w \<noteq> [] \<and> list_all p w}" by blast
  next
    fix r assume "r \<in> {r. \<exists>w. s = w @ r \<and> w \<noteq> [] \<and> list_all p w}"
    then obtain w where w: "s = w @ r" "w \<noteq> []" "list_all p w" by auto
    then obtain y ys where "w = y # ys" by (cases w) auto
    with w Cons have "p x" "xs = ys @ r" "list_all p ys" by auto
    then have "r \<in> set (re_star p xs)" by (auto simp: set_re_star)
    with Cons \<open>p x\<close> show "r \<in> set (re_plus p s)" by (simp add: re_plus_def)
  qed
qed

lemma set_re_lit: "set (re_lit c s) = {r. s = c # r}"
  by (cases s) (auto simp: re_lit_def)

lemma set_re_seq: "set (re_seq m1 m2 s) = (\<Union>r \<in> set (m1 s). set (m2 r))"
  by (simp add: re_seq_def)

lemma set_re_opt: "set (re_opt m s) = insert s (set (m s))"
  by (simp add: re_opt_def)

lemma set_check_part:
  "set (check_part s) = insert s {r. \<exists>ws. s = CHECK # ws @ r \<and> is_blank ws}"
  by (auto simp: check_part_def set_re_opt set_re_seq set_re_lit set_re_star is_blank_def)

lemma set_ratio_part:
  "set (ratio_part s) =
     insert s {r. \<exists>p q ws. s = p @ u ''/'' @ q @ ws @ r \<and> is_number p \<and> is_number q \<and>
                            ws \<noteq> [] \<and> is_blank ws}"
  apply (simp add: ratio_part_def set_re_opt set_re_seq set_re_lit set_re_plus is_blank_def is_number_def u_def)
  apply (rule arg_cong [where f = "insert s"])
  apply (intro set_eqI iffI)
   apply clarsimp
   apply blast
  apply clarsimp
  apply blast
  done

lemma set_ident_part:
  "set (ident_part s) = {t. \<exists>e. s = t @ e \<and> is_identifier t \<and> re_end e}"
proof (intro set_eqI iffI)
  fix t assume "t \<in> set (ident_part s)"
  then obtain e w where e: "re_end e" "s = w @ e" "w \<noteq> []" "list_all is_ident w"
    and t: "t = take (length s - length e) s"
    by (auto simp: ident_part_def set_re_plus)
  from e t have "t = w" by simp
  with e show "t \<in> {t. \<exists>e. s = t @ e \<and> is_identifier t \<and> re_end e}"
    by (auto simp: is_identifier_def)
next
  fix t assume "t \<in> {t. \<exists>e. s = t @ e \<and> is_identifier t \<and> re_end e}"
  then obtain e where e: "s = t @ e" "t \<noteq> []" "list_all is_ident t" "re_end e"
    by (auto simp: is_identifier_def)
  then have "e \<in> set (filter re_end (re_plus is_ident s))"
    by (auto simp: set_re_plus)
  moreover from e have "t = take (length s - length e) s" by simp
  ultimately show "t \<in> set (ident_part s)"
    unfolding ident_part_def set_map by (rule rev_image_eqI)
qed

lemma set_group_line_matches:
  "set (group_line_matches s) = {t. \<exists>l e. s = l @ e \<and> re_end e \<and> group_line_shape l t}"
proof (intro set_eqI iffI)
  fix t assume "t \<in> set (group_line_matches s)"
  then obtain r1 r2 e where r1: "r1 \<in> set (check_part s)" and r2: "r2 \<in> set (ratio_part r1)"
    and t: "r2 = t @ e" "is_identifier t" "re_end e"
    by (auto simp: group_line_matches_def set_re_seq set_ident_part)
  from r1 consider "r1 = s" | ws where "s = CHECK # ws @ r1" "is_blank ws"
    by (auto simp: set_check_part)
  then have "\<exists>l. s = l @ e \<and> group_line_shape l t"
  proof cases
    case 1
    from r2 consider "r2 = r1"
      | p q ws' where "r1 = p @ u ''/'' @ q @ ws' @ r2" "is_number p" "is_number q" "ws' \<noteq> []" "is_blank ws'"
      by (auto simp: set_ratio_part)
    then show ?thesis
    proof cases
      case 1
      with \<open>r1 = s\<close> t have "s = t @ e" "group_line_shape t t"
        by (auto intro: group_line_shape.bare)
      then show ?thesis by blast
    next
      case 2
      with \<open>r1 = s\<close> t have "s = (p @ u ''/'' @ q @ ws' @ t) @ e"
        "group_line_shape (p @ u ''/'' @ q @ ws' @ t) t"
        by (auto intro: group_line_shape.ratio)
      then show ?thesis by blast
    qed
  next
    case 2
    note c = 2
    from r2 consider "r2 = r1"
      | p q ws' where "r1 = p @ u ''/'' @ q @ ws' @ r2" "is_number p" "is_number q" "ws' \<noteq> []" "is_blank ws'"
      by (auto simp: set_ratio_part)
    then show ?thesis
    proof cases
      case 1
      with c t have "s = (CHECK # ws @ t) @ e" "group_line_shape (CHECK # ws @ t) t"
        by (auto intro: group_line_shape.checked)
      then show ?thesis by blast
    next
      case 2
      with c t have "s = (CHECK # ws @ p @ u ''/'' @ q @ ws' @ t) @ e"
        "group_line_shape (CHECK # ws @ p @ u ''/'' @ q @ ws' @ t) t"
        by (auto intro: group_line_shape.checked_ratio)
      then show ?thesis by blast
    qed
  qed
  with t show "t \<in> {t. \<exists>l e. s = l @ e \<and> re_end e \<and> group_line_shape l t}" by blast
next
  fix t assume "t \<in> {t. \<exists>l e. s = l @ e \<and> re_end e \<and> group_line_shape l t}"
  then obtain l e where s: "s = l @ e" and e: "re_end e" and sh: "group_line_shape l t" by blast
  have "\<exists>r1 \<in> set (check_part s). \<exists>r2 \<in> set (ratio_part r1). t \<in> set (ident_part r2)"
    using sh
  proof cases
    case bare
    with s e have "s \<in> set (check_part s)" "s \<in> set (ratio_part s)" "t \<in> set (ident_part s)"
      by (auto simp: set_check_part set_ratio_part set_ident_part)
    then show ?thesis by blast
  next
    case (checked ws)
    with s e have "t @ e \<in> set (check_part s)" "t @ e \<in> set (ratio_part (t @ e))"
      "t \<in> set (ident_part (t @ e))"
      by (auto simp: set_check_part set_ratio_part set_ident_part)
    then show ?thesis by blast
  next
    case (ratio p q ws)
    with s e have "s \<in> set (check_part s)" "t @ e \<in> set (ratio_part s)"
      "t \<in> set (ident_part (t @ e))"
      by (auto simp: set_check_part set_ratio_part set_ident_part)
    then show ?thesis by blast
  next
    case (checked_ratio ws p q ws')
    with s e have "p @ u ''/'' @ q @ ws' @ t @ e \<in> set (check_part s)"
      "t @ e \<in> set (ratio_part (p @ u ''/'' @ q @ ws' @ t @ e))"
      "t \<in> set (ident_part (t @ e))"
      by (auto simp: set_check_part set_ratio_part set_ident_part)
    then show ?thesis by blast
  qed
  then show "t \<in> set (group_line_matches s)"
    by (auto simp: group_line_matches_def set_re_seq)
qed

lemma space_not_ident: "isspace c \<Longrightarrow> \<not> is_ident c"
  by (auto simp: isspace_def is_ident_def)

lemma check_not_ident: "\<not> is_ident CHECK"
  by (simp add: is_ident_def CHECK_def)

lemma shape_split:
  assumes "group_line_shape l t"
  shows "\<exists>pre. l = pre @ t \<and> is_identifier t \<and> (pre = [] \<or> \<not> is_ident (last pre))"
  using assms
proof cases
  case bare
  then have "l = [] @ t \<and> is_identifier t" by simp
  then show ?thesis by blast
next
  case (checked ws)
  then have "l = (CHECK # ws) @ t" "is_identifier t" "\<not> is_ident (last (CHECK # ws))"
    by (auto simp: is_blank_def list_all_iff check_not_ident space_not_ident)
  then show ?thesis by blast
next
  case (ratio p q ws)
  then have "l = (p @ u ''/'' @ q @ ws) @ t" "is_identifier t"
    "\<not> is_ident (last (p @ u ''/'' @ q @ ws))"
    by (auto simp: is_blank_def list_all_iff space_not_ident)
  then show ?thesis by blast
next
  case (checked_ratio ws p q ws')
  then have "l = (CHECK # ws @ p @ u ''/'' @ q @ ws') @ t" "is_identifier t"
    "\<not> is_ident (last (CHECK # ws @ p @ u ''/'' @ q @ ws'))"
    by (auto simp: is_blank_def list_all_iff space_not_ident)
  then show ?thesis by blast
qed

lemma trailing_ident:
  assumes "l = pre @ t" "list_all is_ident t" "pre = [] \<or> \<not> is_ident (last pre)"
  shows "rev (takeWhile is_ident (rev l)) = t"
proof -
  have "takeWhile is_ident (rev pre) = []"
  proof (cases pre rule: rev_cases)
    case Nil
    then show ?thesis by simp
  next
    case (snoc ys y)
    with assms(3) show ?thesis by simp
  qed
  moreover have "takeWhile is_ident (rev t @ rev pre) = rev t @ takeWhile is_ident (rev pre)"
    using assms(2) by (intro takeWhile_append2) (simp add: list_all_iff)
  ultimately have "takeWhile is_ident (rev t @ rev pre) = rev t"
    by simp
  with assms(1) show ?thesis by simp
qed

lemma shape_unique:
  assumes "group_line_shape l t" "group_line_shape l t'"
  shows "t = t'"
proof -
  from assms(1) have "rev (takeWhile is_ident (rev l)) = t"
    using shape_split trailing_ident by (metis is_identifier_def)
  moreover from assms(2) have "rev (takeWhile is_ident (rev l)) = t'"
    using shape_split trailing_ident by (metis is_identifier_def)
  ultimately show ?thesis by simp
qed

lemma strip_last: "strip s \<noteq> [] \<Longrightarrow> \<not> isspace (last (strip s))"
proof -
  assume "strip s \<noteq> []"
  then have ne: "dropWhile isspace (rev (dropWhile isspace s)) \<noteq> []"
    by (simp add: strip_def)
  then have "\<not> isspace (hd (dropWhile isspace (rev (dropWhile isspace s))))"
    by (rule hd_dropWhile)
  with ne show ?thesis by (simp add: strip_def last_rev)
qed

lemma strip_first: "strip s \<noteq> [] \<Longrightarrow> \<not> isspace (hd (strip s))"
proof -
  assume ne: "strip s \<noteq> []"
  define d where "d = dropWhile isspace s"
  have "strip s = rev (dropWhile isspace (rev d))" by (simp add: strip_def d_def)
  with ne have dne: "d \<noteq> []" by auto
  then have h: "\<not> isspace (hd d)" unfolding d_def by (rule hd_dropWhile)
  obtain x xs where d: "d = x # xs" using dne by (cases d) auto
  with h have "\<not> isspace x" by simp
  then have "dropWhile isspace (rev xs @ [x]) = dropWhile isspace (rev xs) @ [x]"
    by (simp add: dropWhile_append3)
  with d have "strip s = x # rev (dropWhile isspace (rev xs))"
    by (simp add: strip_def d_def [symmetric])
  with \<open>\<not> isspace x\<close> show ?thesis by simp
qed

lemma match_on_stripped:
  assumes "line = strip s"
  shows "GROUP_LINE_match line = Some t \<longleftrightarrow> group_line_shape line t"
proof -
  have mem: "g \<in> set (group_line_matches line) \<longleftrightarrow> group_line_shape line g" for g
  proof
    assume "g \<in> set (group_line_matches line)"
    then obtain l e where le: "line = l @ e" "re_end e" "group_line_shape l g"
      by (auto simp: set_group_line_matches)
    have "e = []"
    proof (rule ccontr)
      assume "e \<noteq> []"
      with le have "e = [10]" by (simp add: re_end_def)
      with le have "line \<noteq> []" "last line = 10" by auto
      with assms have "\<not> isspace 10" using strip_last by metis
      then show False by (simp add: isspace_def)
    qed
    with le show "group_line_shape line g" by simp
  next
    assume "group_line_shape line g"
    then have "line = line @ [] \<and> re_end [] \<and> group_line_shape line g"
      by (simp add: re_end_def)
    then show "g \<in> set (group_line_matches line)"
      unfolding set_group_line_matches by blast
  qed
  show ?thesis
  proof
    assume "GROUP_LINE_match line = Some t"
    then have "t \<in> set (group_line_matches line)"
      by (auto simp: GROUP_LINE_match_def split: list.splits)
    then show "group_line_shape line t" by (simp add: mem)
  next
    assume sh: "group_line_shape line t"
    then have "t \<in> set (group_line_matches line)" by (simp add: mem)
    then obtain g gs where g: "group_line_matches line = g # gs"
      by (cases "group_line_matches line") auto
    then have "g \<in> set (group_line_matches line)" by simp
    then have "group_line_shape line g" by (simp add: mem)
    with sh have "g = t" by (rule shape_unique [symmetric])
    with g show "GROUP_LINE_match line = Some t" by (simp add: GROUP_LINE_match_def)
  qed
qed

lemma hash_not_decimal: "\<not> isdecimal 35"
  by (simp add: isdecimal_def todecimal_def decimal_starts_def)

lemma shape_first:
  assumes "group_line_shape l t"
  shows "l \<noteq> [] \<and> hd l \<noteq> 35"
  using assms
proof cases
  case bare
  then show ?thesis by (cases t) (auto simp: is_identifier_def is_ident_def)
next
  case (checked ws)
  then show ?thesis by (simp add: CHECK_def)
next
  case (ratio p q ws)
  then show ?thesis using hash_not_decimal by (cases p) (auto simp: is_number_def)
next
  case (checked_ratio ws p q ws')
  then show ?thesis by (simp add: CHECK_def)
qed

lemma startswith_hash: "startswith l (u ''#'') \<longleftrightarrow> l \<noteq> [] \<and> hd l = 35"
  by (cases l) (auto simp: startswith_def u_def)


section \<open>Integers, counters and their text\<close>






lemma py_str_error: "py_str i = Inl e \<Longrightarrow> e = ValueError"
  by (auto simp: py_str_def split: if_splits)

lemma py_str_fits: "py_str i = Inr t \<longleftrightarrow> fits i \<and> t = decimal i"
  by (auto simp: py_str_def)

lemma todecimal_ascii: "48 \<le> c \<Longrightarrow> c < 58 \<Longrightarrow> todecimal c = Some (c - 48)"
  by (simp add: todecimal_def decimal_starts_def)

lemma dec_value_snoc:
  assumes "ds \<noteq> []" "\<forall>c \<in> set ds. 48 \<le> c \<and> c < 58" "48 \<le> d" "d < 58"
  shows "dec_value acc (ds @ [d]) =
           (case dec_value acc ds of None \<Rightarrow> None | Some v \<Rightarrow> Some (10 * v + (d - 48)))"
  using assms(1,2)
proof (induction ds arbitrary: acc)
  case Nil
  then show ?case by simp
next
  case (Cons c ds)
  then have c: "todecimal c = Some (c - 48)" by (simp add: todecimal_ascii)
  show ?case
  proof (cases ds)
    case Nil
    with c assms(3,4) show ?thesis by (simp add: todecimal_ascii)
  next
    case (Cons c' ds')
    with Cons.prems have "c' \<noteq> 95" by auto
    moreover have "dec_value (10 * acc + (c - 48)) (ds @ [d]) =
           (case dec_value (10 * acc + (c - 48)) ds of None \<Rightarrow> None
            | Some v \<Rightarrow> Some (10 * v + (d - 48)))"
      using Cons.IH [of "10 * acc + (c - 48)"] Cons.prems Cons by simp
    ultimately show ?thesis using c Cons by simp
  qed
qed

lemma digits_ascii: "digits n \<noteq> [] \<and> (\<forall>c \<in> set (digits n). 48 \<le> c \<and> c < 58)"
proof (induction n rule: digits.induct)
  case (1 n)
  show ?case
  proof (cases "n < 10")
    case True
    then show ?thesis by (simp add: digits.simps [of n])
  next
    case False
    with 1 show ?thesis by (simp add: digits.simps [of n])
  qed
qed

lemma dec_value_digits: "dec_value 0 (digits n) = Some n"
proof (induction n rule: digits.induct)
  case (1 n)
  show ?case
  proof (cases "n < 10")
    case True
    then show ?thesis by (simp add: digits.simps [of n] todecimal_ascii)
  next
    case False
    with 1 have "dec_value 0 (digits (n div 10)) = Some (n div 10)" by simp
    moreover have "dec_value 0 (digits (n div 10) @ [48 + n mod 10]) =
       (case dec_value 0 (digits (n div 10)) of None \<Rightarrow> None
        | Some v \<Rightarrow> Some (10 * v + (48 + n mod 10 - 48)))"
      using digits_ascii [of "n div 10"] by (intro dec_value_snoc) simp_all
    ultimately show ?thesis using False by (simp add: digits.simps [of n])
  qed
qed

lemma trim_id:
  assumes "s \<noteq> []" "\<not> p (hd s)" "\<not> p (last s)"
  shows "rev (dropWhile p (rev (dropWhile p s))) = s"
proof -
  from assms(1,2) have "dropWhile p s = s" by (cases s) auto
  moreover from assms(1,3) have "dropWhile p (rev s) = rev s"
    by (cases s rule: rev_cases) auto
  ultimately show ?thesis by simp
qed

lemma ascii_digit_not_space: "48 \<le> c \<Longrightarrow> c < 58 \<Longrightarrow> \<not> int_space c"
  by (simp add: int_space_def isspace_def)

lemma digits_no_underscore: "filter (\<lambda>c. c \<noteq> 95) (digits n) = digits n"
  using digits_ascii [of n] by (intro filter_True) auto

lemma int_literal_digits:
  "length (digits n) \<le> int_max_str_digits \<Longrightarrow> int_literal (digits n) = Inr n"
  by (simp add: int_literal_def dec_value_digits digits_no_underscore)

lemma int_literal_too_long:
  "int_max_str_digits < length (filter (\<lambda>c. c \<noteq> 95) s) \<Longrightarrow> int_literal s = Inl ValueError"
  by (simp add: int_literal_def split: option.splits)

lemma int_literal_error: "int_literal s = Inl e \<Longrightarrow> e = ValueError"
  by (auto simp: int_literal_def split: option.splits if_splits)

lemma py_int_decimal:
  assumes "fits i"
  shows "py_int (decimal i) = Inr i"
proof (cases "i < 0")
  case True
  let ?ds = "digits (nat (- i))"
  from digits_ascii [of "nat (- i)"] have ne: "?ds \<noteq> []" and
    l: "48 \<le> last ?ds \<and> last ?ds < 58"
    by simp_all
  have "\<not> int_space 45" by (simp add: int_space_def isspace_def)
  with ne l have "rev (dropWhile int_space (rev (dropWhile int_space (45 # ?ds)))) = 45 # ?ds"
    by (intro trim_id) (simp_all add: ascii_digit_not_space)
  moreover from assms True have "int_literal ?ds = Inr (nat (- i))"
    by (intro int_literal_digits) (simp add: fits_def)
  ultimately show ?thesis using True by (simp add: py_int_def decimal_def)
next
  case False
  let ?ds = "digits (nat i)"
  from digits_ascii [of "nat i"] have ne: "?ds \<noteq> []" and
    h: "48 \<le> hd ?ds \<and> hd ?ds < 58" and l: "48 \<le> last ?ds \<and> last ?ds < 58"
    by simp_all
  then have t: "rev (dropWhile int_space (rev (dropWhile int_space ?ds))) = ?ds"
    by (intro trim_id) (simp_all add: ascii_digit_not_space)
  obtain c r where cr: "?ds = c # r" using ne by (cases ?ds) auto
  with h have "c \<noteq> 45" "c \<noteq> 43" by auto
  moreover from assms False have "int_literal ?ds = Inr (nat i)"
    by (intro int_literal_digits) (simp add: fits_def)
  ultimately show ?thesis using False t cr by (simp add: py_int_def decimal_def)
qed

lemma py_int_py_str: "py_str i = Inr t \<Longrightarrow> py_int t = Inr i"
  by (simp add: py_str_fits py_int_decimal)

lemma digits_power10: "digits (10 ^ k) = 49 # replicate k 48"
proof (induction k)
  case 0
  show ?case by (simp add: digits.simps)
next
  case (Suc k)
  have "(10::nat) ^ Suc k div 10 = 10 ^ k" "(10::nat) ^ Suc k mod 10 = 0"
    "\<not> (10::nat) ^ Suc k < 10"
    by (simp_all add: not_less)
  then have "digits (10 ^ Suc k) = digits (10 ^ k) @ [48]"
    by (subst digits.simps) (simp del: power_Suc)
  with Suc show ?case by (simp add: replicate_append_same)
qed


lemma decimal_power10: "decimal (10 ^ k) = u ''1'' @ replicate k 48"
proof -
  have n: "nat ((10::int) ^ k) = 10 ^ k" by (simp add: nat_power_eq)
  have "\<not> (10::int) ^ k < 0" by simp
  then have "decimal (10 ^ k) = digits (nat ((10::int) ^ k))" by (simp only: decimal_def if_False)
  then show ?thesis unfolding n digits_power10 by (simp add: u_def)
qed



lemma py_int_power10_beyond:
  assumes "int_max_str_digits \<le> k"
  shows "py_int (u ''1'' @ replicate k 48) = Inl ValueError"
proof -
  let ?s = "49 # replicate k (48::nat)"
  from assms have k: "0 < k" by (simp add: int_max_str_digits_def)
  have "\<not> int_space 49" "\<not> int_space 48" by (simp_all add: int_space_def isspace_def)
  with k have "rev (dropWhile int_space (rev (dropWhile int_space ?s))) = ?s"
    by (intro trim_id) simp_all
  moreover have "int_literal ?s = Inl ValueError"
    using assms by (intro int_literal_too_long) simp
  ultimately show ?thesis by (simp add: py_int_def u_def)
qed

lemma carries_py_int: "carries a k v \<Longrightarrow> py_int (get a k (u ''0'')) = Inr v"
  by (auto simp: carries_def get_def py_int_zero split: option.splits)

lemma py_int_carries: "py_int (get a k (u ''0'')) = Inr v \<Longrightarrow> carries a k v"
  by (auto simp: carries_def get_def py_int_zero split: option.splits)

lemma py_int_error: "py_int t = Inl e \<Longrightarrow> e = ValueError"
  by (auto simp: py_int_def split: list.splits if_splits sum.splits dest: int_literal_error)

lemma written_carries: "written a k v \<Longrightarrow> carries a k v"
  by (auto simp: written_def carries_def py_int_decimal split: option.splits)

lemma read_counters_Document:
  "read_counters (Document (Some a)) = Inr (p, f, s) \<longleftrightarrow>
     carries a (u ''passed'') p \<and> carries a (u ''failed'') f \<and> carries a (u ''notExecuted'') s"
proof
  assume "read_counters (Document (Some a)) = Inr (p, f, s)"
  then have "py_int (get a (u ''passed'') (u ''0'')) = Inr p \<and>
    py_int (get a (u ''failed'') (u ''0'')) = Inr f \<and>
    py_int (get a (u ''notExecuted'') (u ''0'')) = Inr s"
    by (auto simp: read_counters_def read_summary_def ET_parse_def
        split: sum.splits exn.splits dest: py_int_error)
  then show "carries a (u ''passed'') p \<and> carries a (u ''failed'') f \<and> carries a (u ''notExecuted'') s"
    by (simp add: py_int_carries)
next
  assume "carries a (u ''passed'') p \<and> carries a (u ''failed'') f \<and> carries a (u ''notExecuted'') s"
  then have "py_int (get a (u ''passed'') (u ''0'')) = Inr p"
    "py_int (get a (u ''failed'') (u ''0'')) = Inr f"
    "py_int (get a (u ''notExecuted'') (u ''0'')) = Inr s"
    by (simp_all add: carries_py_int)
  then show "read_counters (Document (Some a)) = Inr (p, f, s)"
    by (simp add: read_counters_def read_summary_def ET_parse_def)
qed

lemma read_counters_no_summary:
  "read_counters Absent = Inr (0, 0, 0)" "read_counters Malformed = Inr (0, 0, 0)"
  "read_counters (Document None) = Inr (0, 0, 0)"
  by (simp_all add: read_counters_def read_summary_def ET_parse_def)



section \<open>The result of one group\<close>




text \<open>
  Claim C2, as the code has it. The reading of the result file returns counts and raises
  nothing when the file does not exist, when the parser refuses it as not well-formed XML,
  when it has no counters node, and when each of the three attributes of the counters node
  is missing or written as the decimal text of an integer of at most 4300 digits.
\<close>

theorem read_counters_returns:
  assumes "f = Absent \<or> f = Malformed \<or> f = Document None \<or>
           (\<exists>a p q s. f = Document (Some a) \<and> written a (u ''passed'') p \<and>
              written a (u ''failed'') q \<and> written a (u ''notExecuted'') s)"
  shows "\<exists>r. read_counters f = Inr r"
  using assms read_counters_no_summary read_counters_Document written_carries by metis

theorem read_counters_returns_witness:
  "(\<exists>r. read_counters Malformed = Inr r) \<and>
   (\<exists>r. read_counters (Document (Some [u ''passed'' \<mapsto> u ''18'', u ''failed'' \<mapsto> u ''2''])) = Inr r)"
proof
  show "\<exists>r. read_counters Malformed = Inr r"
    using read_counters_returns [of Malformed] by simp
  let ?a = "[u ''passed'' \<mapsto> u ''18'', u ''failed'' \<mapsto> u ''2'']"
  have "written ?a (u ''passed'') 18 \<and> written ?a (u ''failed'') 2 \<and>
        written ?a (u ''notExecuted'') 0"
    by (simp add: written_def str_defs u_def)
  then show "\<exists>r. read_counters (Document (Some ?a)) = Inr r"
    using read_counters_returns [of "Document (Some ?a)"] by blast
qed

text \<open>
  The claim says that the reading never raises, for arbitrary attribute values. With
  \<open>passed="abc"\<close> the conversion \<open>int(...)\<close> raises \<open>ValueError\<close>, which the clause
  \<open>except ET.ParseError\<close> does not catch, and \<open>run_group\<close> raises it to its caller.
\<close>

theorem non_integer_attribute_raises:
  "read_counters (Document (Some [u ''passed'' \<mapsto> u ''abc''])) = Inl ValueError \<and>
   run_group \<lparr>makedirs_ok = True, runner = Exited 0,
       trx = Document (Some [u ''passed'' \<mapsto> u ''abc''])\<rparr> (u ''Promise'') = Inl ValueError"
  by (simp add: run_defs text_defs)

text \<open>
  Claim C3, as the code has it. When the runner process ran, its exit code, zero or not,
  is swallowed: the invocation raises nothing, and \<open>run_group\<close> goes on to read the result
  file and returns what the file gives, whatever the exit code.
\<close>

theorem exit_code_swallowed:
  "makedirs_ok env \<Longrightarrow> runner env = Exited code \<Longrightarrow>
   invoke_runner (runner env) = Inr () \<and>
   run_group env g = map_sum id (\<lambda>(p, f, s). (g, p, f, p + f + s)) (read_counters (trx env))"
  by (auto simp: run_group_def invoke_runner_def subprocess_run_def split: sum.splits)

theorem exit_code_swallowed_witness:
  "makedirs_ok \<lparr>makedirs_ok = True, runner = Exited 1, trx = Absent\<rparr> \<and>
   runner \<lparr>makedirs_ok = True, runner = Exited 1, trx = Absent\<rparr> = Exited 1 \<and>
   run_group \<lparr>makedirs_ok = True, runner = Exited 1, trx = Absent\<rparr> (u ''Promise'')
     = Inr (u ''Promise'', 0, 0, 0)"
  using exit_code_swallowed
    [of "\<lparr>makedirs_ok = True, runner = Exited 1, trx = Absent\<rparr>" 1 "u ''Promise''"]
  by (simp add: read_counters_def)

text \<open>
  The claim says that any other execution error of the invocation, such as the runner
  binary not being found, is swallowed as well. The \<open>except\<close> clause names
  \<open>CalledProcessError\<close> only: when the process cannot be started, the exception leaves
  \<open>run_group\<close>, and the result file is not looked at.
\<close>

theorem runner_not_started_propagates:
  "run_group \<lparr>makedirs_ok = True, runner = Not_Started, trx = Absent\<rparr> (u ''Promise'')
     = Inl FileNotFoundError"
  by (simp add: run_defs)

text \<open>
  Claim C5, as the code has it. When each of \<open>passed\<close>, \<open>failed\<close> and \<open>notExecuted\<close> is
  written in the counters node as the decimal text of an integer \<open>p\<close>, \<open>f\<close>, \<open>s\<close> of at most
  4300 digits, or is missing and stands for 0, the reading gives \<open>passed = p\<close>,
  \<open>failed = f\<close>, \<open>skipped = s\<close> unchanged, and \<open>run_group\<close> returns the total \<open>p + f + s\<close>.
\<close>

theorem counters_reproduced:
  assumes "written a (u ''passed'') p" "written a (u ''failed'') f"
    "written a (u ''notExecuted'') s"
  shows "read_counters (Document (Some a)) = Inr (p, f, s) \<and>
         run_group \<lparr>makedirs_ok = True, runner = Exited code, trx = Document (Some a)\<rparr> g
           = Inr (g, p, f, p + f + s)"
proof -
  from assms have r: "read_counters (Document (Some a)) = Inr (p, f, s)"
    by (simp add: read_counters_Document written_carries)
  then show ?thesis
    by (simp add: run_group_def invoke_runner_def subprocess_run_def)
qed

theorem counters_reproduced_witness:
  "written [u ''passed'' \<mapsto> u ''18'', u ''failed'' \<mapsto> u ''2''] (u ''passed'') 18 \<and>
   written [u ''passed'' \<mapsto> u ''18'', u ''failed'' \<mapsto> u ''2''] (u ''failed'') 2 \<and>
   written [u ''passed'' \<mapsto> u ''18'', u ''failed'' \<mapsto> u ''2''] (u ''notExecuted'') 0 \<and>
   run_group \<lparr>makedirs_ok = True, runner = Exited 1,
       trx = Document (Some [u ''passed'' \<mapsto> u ''18'', u ''failed'' \<mapsto> u ''2''])\<rparr> (u ''RegExp'')
     = Inr (u ''RegExp'', 18, 2, 20)"
proof -
  let ?a = "[u ''passed'' \<mapsto> u ''18'', u ''failed'' \<mapsto> u ''2'']"
  have c: "written ?a (u ''passed'') 18" "written ?a (u ''failed'') 2"
    "written ?a (u ''notExecuted'') 0"
    by (simp_all add: written_def str_defs u_def)
  from counters_reproduced [OF c, of 1 "u ''RegExp''"] c show ?thesis by simp
qed

text \<open>
  The claim says this of every non-negative count. The count \<open>10 ^ 4300\<close> is non-negative
  and its decimal text, a 1 followed by 4300 zeros, has 4301 digits: \<open>int(...)\<close> refuses it
  with \<open>ValueError\<close>, and nothing is reproduced.
\<close>

theorem counter_beyond_digit_limit:
  "decimal (10 ^ 4300) = u ''1'' @ replicate 4300 48 \<and>
   read_counters (Document (Some [u ''passed'' \<mapsto> u ''1'' @ replicate 4300 48])) = Inl ValueError \<and>
   run_group \<lparr>makedirs_ok = True, runner = Exited 0,
       trx = Document (Some [u ''passed'' \<mapsto> u ''1'' @ replicate 4300 48])\<rparr> (u ''Promise'')
     = Inl ValueError"
proof -
  have p: "py_int (u ''1'' @ replicate 4300 48) = Inl ValueError"
    by (rule py_int_power10_beyond) (simp add: int_max_str_digits_def)
  have r: "read_counters (Document (Some [u ''passed'' \<mapsto> u ''1'' @ replicate 4300 48]))
             = Inl ValueError"
    by (simp add: read_counters_def read_summary_def ET_parse_def get_def p)
  then have "run_group \<lparr>makedirs_ok = True, runner = Exited 0,
       trx = Document (Some [u ''passed'' \<mapsto> u ''1'' @ replicate 4300 48])\<rparr> (u ''Promise'')
     = Inl ValueError"
    by (simp add: run_group_def invoke_runner_def subprocess_run_def)
  with r decimal_power10 [of 4300] show ?thesis by blast
qed

text \<open>
  Claim C6. When the result file of a group does not exist, the reading of lines 66 to 77
  ends with \<open>passed = failed = skipped = 0\<close> and raises nothing, and \<open>run_group\<close>, whatever
  the exit code of the runner was, returns the group with passed 0, failed 0 and total 0.
\<close>

theorem absent_file_gives_zeros:
  "read_counters Absent = Inr (0, 0, 0) \<and>
   run_group \<lparr>makedirs_ok = True, runner = Exited code, trx = Absent\<rparr> g = Inr (g, 0, 0, 0)"
  by (simp add: run_defs)




section \<open>What \<open>parse_groups\<close> collects\<close>

lemma recognized_is_accepted: "recognized_shape l t \<Longrightarrow> group_line_shape l t"
  by (induction rule: recognized_shape.induct) (auto intro: group_line_shape.intros)

lemma parse_step_cases:
  "parse_step groups l =
     (case GROUP_LINE_match (strip l) of Some g \<Rightarrow> groups @ [g] | None \<Rightarrow> groups)"
proof (cases "strip l = [] \<or> startswith (strip l) (u ''#'')")
  case False
  then show ?thesis by (simp add: parse_step_def)
next
  case True
  have "GROUP_LINE_match (strip l) = None"
  proof (cases "GROUP_LINE_match (strip l)")
    case (Some g)
    then have "group_line_shape (strip l) g" by (simp add: match_on_stripped [OF refl])
    then have "strip l \<noteq> [] \<and> hd (strip l) \<noteq> 35" by (rule shape_first)
    with True show ?thesis by (simp add: startswith_hash)
  qed simp
  with True show ?thesis by (simp add: parse_step_def)
qed

lemma parse_step_shape:
  "group_line_shape (strip l) t \<Longrightarrow> parse_step groups l = groups @ [t]"
  by (simp add: parse_step_cases match_on_stripped [OF refl, symmetric])

lemma parse_step_no_shape:
  "\<forall>t. \<not> group_line_shape (strip l) t \<Longrightarrow> parse_step groups l = groups"
  by (cases "GROUP_LINE_match (strip l)")
     (simp_all add: parse_step_cases match_on_stripped [OF refl])

lemma parse_step_identifier:
  assumes "\<forall>g \<in> set groups. is_identifier g"
  shows "\<forall>g \<in> set (parse_step groups l). is_identifier g"
proof (cases "GROUP_LINE_match (strip l)")
  case None
  with assms show ?thesis by (simp add: parse_step_cases)
next
  case (Some t)
  then have "group_line_shape (strip l) t" by (simp add: match_on_stripped [OF refl])
  then have "is_identifier t" using shape_split by blast
  with assms Some show ?thesis by (simp add: parse_step_cases)
qed

lemma foldl_parse_step_identifier:
  "\<forall>g \<in> set acc. is_identifier g \<Longrightarrow> \<forall>g \<in> set (foldl parse_step acc ls). is_identifier g"
proof (induction ls arbitrary: acc)
  case Nil
  then show ?case by simp
next
  case (Cons l ls)
  from Cons.prems have "\<forall>g \<in> set (parse_step acc l). is_identifier g"
    by (rule parse_step_identifier)
  then show ?case using Cons.IH by simp
qed

lemma slash_not_ident: "\<not> is_ident 47"
  by (simp add: is_ident_def)

lemma F_not_space: "\<not> isspace 70"
  by (simp add: isspace_def)

lemma F_not_decimal: "\<not> isdecimal 70"
  by (simp add: isdecimal_def todecimal_def decimal_starts_def)

lemma check_not_decimal: "\<not> isdecimal CHECK"
  by (simp add: isdecimal_def todecimal_def decimal_starts_def CHECK_def)

lemma not_recognized_check_Foo: "\<not> recognized_line (CHECK # u ''Foo'')"
proof
  assume "recognized_line (CHECK # u ''Foo'')"
  then obtain t where "recognized_shape (CHECK # u ''Foo'') t"
    by (auto simp: recognized_line_def)
  then show False
  proof cases
    case bare
    then show ?thesis by (simp add: is_identifier_def check_not_ident)
  next
    case (checked ws)
    then obtain w ws' where "ws = w # ws'" by (cases ws) auto
    with checked show ?thesis by (simp add: u_def is_blank_def F_not_space)
  next
    case (ratio p q ws)
    then obtain d p' where "p = d # p'" by (cases p) (auto simp: is_number_def)
    with ratio show ?thesis by (auto simp: is_number_def check_not_decimal)
  next
    case (checked_ratio ws p q ws')
    show ?thesis
    proof (cases ws)
      case Nil
      from checked_ratio obtain d p' where "p = d # p'" by (cases p) (auto simp: is_number_def)
      with Nil checked_ratio show ?thesis by (auto simp: u_def is_number_def F_not_decimal)
    next
      case (Cons w ws'')
      with checked_ratio show ?thesis by (simp add: u_def is_blank_def F_not_space)
    qed
  qed
qed

lemma match_a_b: "GROUP_LINE_match (u ''a b'') = None"
  by (simp add: text_defs re_defs)

lemma parse_three:
  "parse_groups (Some [CHECK # u '' Array.prototype.map'' @ [10], u ''12/15 RegExp'' @ [10],
      u ''Promise'' @ [10]]) = Inr [u ''Array.prototype.map'', u ''RegExp'', u ''Promise'']"
  by (simp add: parse_groups_def parse_step_def text_defs re_defs)

text \<open>
  Claim C4, as the code has it. One line of the document is trimmed; a blank line and a line
  that starts with \<open>#\<close> add nothing to the groups; a line of one of the four recognized
  shapes (bare identifier, check mark and identifier, ratio and identifier, check mark, ratio
  and identifier) adds exactly its trailing identifier, and so does a line of these shapes
  in which no whitespace follows the check mark; every other line adds nothing. No case
  raises.
\<close>

theorem parse_step_shapes:
  "(strip l = [] \<or> startswith (strip l) (u ''#'') \<longrightarrow> parse_step groups l = groups) \<and>
   (\<forall>t. recognized_shape (strip l) t \<longrightarrow> parse_step groups l = groups @ [t]) \<and>
   (\<forall>t. group_line_shape (strip l) t \<longrightarrow> parse_step groups l = groups @ [t]) \<and>
   ((\<forall>t. \<not> group_line_shape (strip l) t) \<longrightarrow> parse_step groups l = groups)"
proof (intro conjI allI impI)
  assume "strip l = [] \<or> startswith (strip l) (u ''#'')"
  then show "parse_step groups l = groups" by (auto simp: parse_step_def)
next
  fix t assume "recognized_shape (strip l) t"
  then have "group_line_shape (strip l) t" by (rule recognized_is_accepted)
  then show "parse_step groups l = groups @ [t]" by (rule parse_step_shape)
next
  fix t assume "group_line_shape (strip l) t"
  then show "parse_step groups l = groups @ [t]" by (rule parse_step_shape)
next
  assume "\<forall>t. \<not> group_line_shape (strip l) t"
  then show "parse_step groups l = groups" by (rule parse_step_no_shape)
qed

theorem parse_step_shapes_witness:
  "parse_step [u ''Promise''] (u ''# done'' @ [10]) = [u ''Promise''] \<and>
   parse_step [u ''Promise''] (u ''12/15 RegExp'' @ [10]) = [u ''Promise'', u ''RegExp''] \<and>
   parse_step [u ''Promise''] (CHECK # u ''Foo'' @ [10]) = [u ''Promise'', u ''Foo''] \<and>
   parse_step [u ''Promise''] (u ''a b'' @ [10]) = [u ''Promise'']"
proof (intro conjI)
  have "startswith (strip (u ''# done'' @ [10])) (u ''#'')"
    by (simp add: text_defs)
  then show "parse_step [u ''Promise''] (u ''# done'' @ [10]) = [u ''Promise'']"
    using parse_step_shapes [of "u ''# done'' @ [10]" "[u ''Promise'']"] by blast
next
  have s: "strip (u ''12/15 RegExp'' @ [10]) = u ''12'' @ u ''/'' @ u ''15'' @ u '' '' @ u ''RegExp''"
    by (simp add: text_defs)
  have "recognized_shape (u ''12'' @ u ''/'' @ u ''15'' @ u '' '' @ u ''RegExp'') (u ''RegExp'')"
    by (rule recognized_shape.ratio)
       (simp_all add: is_number_def is_blank_def is_identifier_def text_defs)
  with s show "parse_step [u ''Promise''] (u ''12/15 RegExp'' @ [10]) = [u ''Promise'', u ''RegExp'']"
    using parse_step_shapes [of "u ''12/15 RegExp'' @ [10]" "[u ''Promise'']"] by simp
next
  have s: "strip (CHECK # u ''Foo'' @ [10]) = CHECK # [] @ u ''Foo''"
    by (simp add: text_defs)
  have "group_line_shape (CHECK # [] @ u ''Foo'') (u ''Foo'')"
    by (rule group_line_shape.checked) (simp_all add: is_blank_def is_identifier_def text_defs)
  with s show "parse_step [u ''Promise''] (CHECK # u ''Foo'' @ [10]) = [u ''Promise'', u ''Foo'']"
    using parse_step_shapes [of "CHECK # u ''Foo'' @ [10]" "[u ''Promise'']"] by simp
next
  have s: "strip (u ''a b'' @ [10]) = u ''a b''"
    by (simp add: text_defs)
  have "\<forall>t. \<not> group_line_shape (strip (u ''a b'' @ [10])) t"
    unfolding s using match_on_stripped [OF s [symmetric]] match_a_b by simp
  then show "parse_step [u ''Promise''] (u ''a b'' @ [10]) = [u ''Promise'']"
    using parse_step_shapes [of "u ''a b'' @ [10]" "[u ''Promise'']"] by blast
qed

text \<open>
  The claim says that a line of no recognized shape is skipped. The pattern asks for
  \<open>\s*\<close> after the check mark, so the line made of the check mark immediately followed by
  \<open>Foo\<close>, which is none of the four shapes, yields the group \<open>Foo\<close>.
\<close>

theorem check_without_space_is_parsed:
  "strip (CHECK # u ''Foo'' @ [10]) = CHECK # u ''Foo'' \<and>
   \<not> recognized_line (CHECK # u ''Foo'') \<and>
   parse_step [] (CHECK # u ''Foo'' @ [10]) = [u ''Foo'']"
proof (intro conjI)
  show "strip (CHECK # u ''Foo'' @ [10]) = CHECK # u ''Foo''"
    by (simp add: text_defs)
  show "\<not> recognized_line (CHECK # u ''Foo'')"
    by (rule not_recognized_check_Foo)
  show "parse_step [] (CHECK # u ''Foo'' @ [10]) = [u ''Foo'']"
    by (simp add: parse_step_def text_defs re_defs)
qed

text \<open>
  Claim C10. Every identifier that \<open>parse_groups\<close> returns is non-empty and consists only
  of characters of the class \<open>[A-Za-z0-9_.-]\<close> (letters, digits, dot, underscore, hyphen);
  in particular it holds no whitespace, no check mark and no \<open>/\<close>.
\<close>

theorem parsed_identifiers:
  assumes "parse_groups doc = Inr groups"
  shows "\<forall>g \<in> set groups.
           g \<noteq> [] \<and> (\<forall>c \<in> set g. is_ident c \<and> \<not> isspace c \<and> c \<noteq> CHECK \<and> c \<noteq> 47)"
proof
  fix g assume g: "g \<in> set groups"
  from assms obtain ls where "groups = foldl parse_step [] ls"
    by (auto simp: parse_groups_def split: option.splits)
  with g have "is_identifier g" using foldl_parse_step_identifier [of "[]" ls] by simp
  then have "g \<noteq> []" and i: "\<forall>c \<in> set g. is_ident c"
    by (simp_all add: is_identifier_def list_all_iff)
  moreover have "\<not> isspace c \<and> c \<noteq> CHECK \<and> c \<noteq> 47" if "is_ident c" for c
    using that space_not_ident check_not_ident slash_not_ident by auto
  ultimately show "g \<noteq> [] \<and> (\<forall>c \<in> set g. is_ident c \<and> \<not> isspace c \<and> c \<noteq> CHECK \<and> c \<noteq> 47)"
    by simp
qed

theorem parsed_identifiers_witness:
  "parse_groups (Some [CHECK # u '' Array.prototype.map'' @ [10], u ''12/15 RegExp'' @ [10],
      u ''Promise'' @ [10]]) = Inr [u ''Array.prototype.map'', u ''RegExp'', u ''Promise''] \<and>
   u ''RegExp'' \<noteq> [] \<and>
   list_all (\<lambda>c. is_ident c \<and> \<not> isspace c \<and> c \<noteq> CHECK \<and> c \<noteq> 47) (u ''Array.prototype.map'') \<and>
   list_all (\<lambda>c. is_ident c \<and> \<not> isspace c \<and> c \<noteq> CHECK \<and> c \<noteq> 47) (u ''RegExp'') \<and>
   list_all (\<lambda>c. is_ident c \<and> \<not> isspace c \<and> c \<noteq> CHECK \<and> c \<noteq> 47) (u ''Promise'')"
  using parsed_identifiers [OF parse_three] parse_three
  unfolding list_all_iff by simp


section \<open>The report\<close>

lemmas main_defs = main_def parse_args_def parse_groups_def parse_step_def summary_line_def
  progress_line_def iteration_def print_line_def no_output_def py_str_def fits_def decimal_def
  digits.simps Let_def

lemma run_group_name: "run_group env g = Inr (name, p, f, t) \<Longrightarrow> name = g"
  by (auto simp: run_group_def Let_def split: if_splits sum.splits prod.splits)

lemma read_counters_error:
  "read_counters f = Inl e \<Longrightarrow> e = OSError \<or> e = ValueError \<or> e = LookupError"
  by (auto simp: read_counters_def read_summary_def ET_parse_def
      split: if_splits sum.splits exn.splits trx_file.splits option.splits
      dest: py_int_error)

lemma run_group_error:
  "run_group env g = Inl e \<Longrightarrow>
   e = OSError \<or> e = FileNotFoundError \<or> e = ValueError \<or> e = LookupError"
  by (auto simp: run_group_def invoke_runner_def subprocess_run_def Let_def
      split: if_splits sum.splits exn.splits run_outcome.splits prod.splits
      dest: read_counters_error)

lemma print_line_error:
  "print_line how stream line = Inl e \<Longrightarrow> e = UnicodeEncodeError \<or> e = OSError"
  by (auto simp: print_line_def split: print_outcome.splits)

lemma print_line_Printed:
  "print_line how stream line = Inr lines \<longleftrightarrow> how = Printed \<and> lines = stream @ [line]"
  by (auto simp: print_line_def split: print_outcome.splits)

lemma summary_line_error: "summary_line name p f t = Inl e \<Longrightarrow> e = ValueError"
  by (auto simp: summary_line_def split: if_splits sum.splits dest: py_str_error)

lemma progress_line_error: "progress_line i n g = Inl e \<Longrightarrow> e = ValueError"
  by (auto simp: progress_line_def split: sum.splits dest: py_str_error)

lemma iteration_completes:
  "snd (iteration w n i g out) = Inr () \<longleftrightarrow>
     (\<exists>notice. progress_line i n g = Inr notice \<and> stderr_print w i notice = Printed) \<and>
     (\<exists>p f t line. run_group (runs w i) g = Inr (g, p, f, t) \<and>
        summary_line g p f t = Inr line \<and> stdout_print w i line = Printed)"
proof
  assume "snd (iteration w n i g out) = Inr ()"
  then obtain notice err name p f t line lines where
    "progress_line i n g = Inr notice"
    "print_line (stderr_print w i notice) (stderr out) notice = Inr err"
    "run_group (runs w i) g = Inr (name, p, f, t)"
    "summary_line name p f t = Inr line"
    "print_line (stdout_print w i line) (stdout out) line = Inr lines"
    by (auto simp: iteration_def split: sum.splits prod.splits)
  moreover from this have "name = g" by (simp add: run_group_name)
  ultimately show "(\<exists>notice. progress_line i n g = Inr notice \<and> stderr_print w i notice = Printed) \<and>
     (\<exists>p f t line. run_group (runs w i) g = Inr (g, p, f, t) \<and>
        summary_line g p f t = Inr line \<and> stdout_print w i line = Printed)"
    by (auto simp: print_line_Printed)
next
  assume "(\<exists>notice. progress_line i n g = Inr notice \<and> stderr_print w i notice = Printed) \<and>
     (\<exists>p f t line. run_group (runs w i) g = Inr (g, p, f, t) \<and>
        summary_line g p f t = Inr line \<and> stdout_print w i line = Printed)"
  then show "snd (iteration w n i g out) = Inr ()"
    by (auto simp: iteration_def print_line_def)
qed

lemma iteration_snd: "snd (iteration w n i g out) = snd (iteration w n i g no_output)"
  by (auto simp: iteration_def print_line_def split: sum.splits prod.splits print_outcome.splits)

lemma iteration_done:
  assumes "iteration w n i g out = (out', Inr ())"
  shows "\<exists>p f t line. run_group (runs w i) g = Inr (g, p, f, t) \<and>
           summary_line g p f t = Inr line \<and> stdout out' = stdout out @ [line]"
proof -
  from assms obtain err name p f t line lines where *:
    "run_group (runs w i) g = Inr (name, p, f, t)"
    "summary_line name p f t = Inr line"
    "print_line (stdout_print w i line) (stdout out) line = Inr lines"
    "out' = out\<lparr>stderr := err, stdout := lines\<rparr>"
    by (auto simp: iteration_def split: sum.splits prod.splits)
  moreover from * have "name = g" by (simp add: run_group_name)
  ultimately show ?thesis by (auto simp: print_line_Printed)
qed

lemma iteration_raised:
  "iteration w n i g out = (out', Inl e) \<Longrightarrow> stdout out' = stdout out"
  by (auto simp: iteration_def split: sum.splits prod.splits)

lemma iteration_error:
  assumes "snd (iteration w n i g out) = Inl e"
  shows "e \<noteq> SystemExit c"
proof -
  from assms have "e = ValueError \<or> e = UnicodeEncodeError \<or> e = OSError \<or>
      e = FileNotFoundError \<or> e = LookupError"
    by (auto simp: iteration_def split: sum.splits prod.splits
        dest!: progress_line_error print_line_error run_group_error summary_line_error)
  then show ?thesis by auto
qed

lemma run_all_stdout:
  assumes "run_all w n i gs out = (out', r)"
  shows "\<exists>ls. stdout out' = stdout out @ ls \<and> length ls \<le> length gs \<and>
           (\<forall>j < length ls. \<exists>p f t.
               run_group (runs w (i + j)) (gs ! j) = Inr (gs ! j, p, f, t) \<and>
               summary_line (gs ! j) p f t = Inr (ls ! j)) \<and>
           (\<forall>j < length ls. snd (iteration w n (i + j) (gs ! j) no_output) = Inr ()) \<and>
           (case r of
              Inr _ \<Rightarrow> length ls = length gs
            | Inl e \<Rightarrow> length ls < length gs \<and>
                       snd (iteration w n (i + length ls) (gs ! length ls) no_output) = Inl e)"
  using assms
proof (induction gs arbitrary: i out)
  case Nil
  then show ?case by auto
next
  case (Cons g gs)
  obtain out1 r1 where it: "iteration w n i g out = (out1, r1)"
    by (cases "iteration w n i g out") auto
  then have snd1: "snd (iteration w n i g no_output) = r1"
    using iteration_snd [of w n i g out] by simp
  show ?case
  proof (cases r1)
    case (Inl e)
    with Cons.prems it have "out' = out1" "r = Inl e" by simp_all
    moreover from it Inl have "stdout out1 = stdout out" by (simp add: iteration_raised)
    ultimately have "stdout out' = stdout out @ []" "r = Inl e" by simp_all
    with snd1 Inl show ?thesis by (intro exI [of _ "[]"]) simp
  next
    case (Inr x)
    with it obtain p f t line where line:
      "run_group (runs w i) g = Inr (g, p, f, t)" "summary_line g p f t = Inr line"
      "stdout out1 = stdout out @ [line]"
      using iteration_done [of w n i g out out1] by auto
    from Cons.prems it Inr have "run_all w n (Suc i) gs out1 = (out', r)" by simp
    from Cons.IH [OF this] obtain ls where
      "stdout out' = stdout out1 @ ls \<and> length ls \<le> length gs \<and>
       (\<forall>j < length ls. \<exists>p f t.
               run_group (runs w (Suc i + j)) (gs ! j) = Inr (gs ! j, p, f, t) \<and>
               summary_line (gs ! j) p f t = Inr (ls ! j)) \<and>
       (\<forall>j < length ls. snd (iteration w n (Suc i + j) (gs ! j) no_output) = Inr ()) \<and>
       (case r of
              Inr _ \<Rightarrow> length ls = length gs
            | Inl e \<Rightarrow> length ls < length gs \<and>
                       snd (iteration w n (Suc i + length ls) (gs ! length ls) no_output) = Inl e)"
      by (rule exE)
    then have ls: "stdout out' = stdout out1 @ ls"
      "length ls \<le> length gs"
      "\<forall>j < length ls. \<exists>p f t.
               run_group (runs w (Suc i + j)) (gs ! j) = Inr (gs ! j, p, f, t) \<and>
               summary_line (gs ! j) p f t = Inr (ls ! j)"
      "\<forall>j < length ls. snd (iteration w n (Suc i + j) (gs ! j) no_output) = Inr ()"
      "case r of
              Inr _ \<Rightarrow> length ls = length gs
            | Inl e \<Rightarrow> length ls < length gs \<and>
                       snd (iteration w n (Suc i + length ls) (gs ! length ls) no_output) = Inl e"
      by simp_all
    let ?ls = "line # ls"
    have 1: "stdout out' = stdout out @ ?ls" using ls(1) line(3) by simp
    have 2: "length ?ls \<le> length (g # gs)" using ls(2) by simp
    have 3: "\<exists>p f t. run_group (runs w (i + j)) ((g # gs) ! j) = Inr ((g # gs) ! j, p, f, t) \<and>
               summary_line ((g # gs) ! j) p f t = Inr (?ls ! j)" if "j < length ?ls" for j
    proof (cases j)
      case 0
      with line show ?thesis by auto
    next
      case (Suc j')
      with that ls(3) show ?thesis by simp
    qed
    have 4: "snd (iteration w n (i + j) ((g # gs) ! j) no_output) = Inr ()"
      if "j < length ?ls" for j
    proof (cases j)
      case 0
      with snd1 Inr show ?thesis by simp
    next
      case (Suc j')
      with that ls(4) show ?thesis by simp
    qed
    have 5: "case r of
              Inr _ \<Rightarrow> length ?ls = length (g # gs)
            | Inl e \<Rightarrow> length ?ls < length (g # gs) \<and>
                snd (iteration w n (i + length ?ls) ((g # gs) ! length ?ls) no_output) = Inl e"
      using ls(5) by (auto split: sum.splits)
    from 1 2 3 4 5 show ?thesis by blast
  qed
qed

lemma run_all_returns:
  "snd (run_all w n i gs out) = Inr () \<longleftrightarrow>
     (\<forall>j < length gs. snd (iteration w n (i + j) (gs ! j) no_output) = Inr ())"
proof -
  obtain out' r where run: "run_all w n i gs out = (out', r)"
    by (cases "run_all w n i gs out") auto
  from run_all_stdout [OF run] obtain ls where
    "stdout out' = stdout out @ ls \<and> length ls \<le> length gs \<and>
     (\<forall>j < length ls. \<exists>p f t.
         run_group (runs w (i + j)) (gs ! j) = Inr (gs ! j, p, f, t) \<and>
         summary_line (gs ! j) p f t = Inr (ls ! j)) \<and>
     (\<forall>j < length ls. snd (iteration w n (i + j) (gs ! j) no_output) = Inr ()) \<and>
     (case r of
        Inr _ \<Rightarrow> length ls = length gs
      | Inl e \<Rightarrow> length ls < length gs \<and>
                 snd (iteration w n (i + length ls) (gs ! length ls) no_output) = Inl e)"
    by (rule exE)
  then have ls:
    "length ls \<le> length gs"
    "\<forall>j < length ls. snd (iteration w n (i + j) (gs ! j) no_output) = Inr ()"
    "case r of
       Inr _ \<Rightarrow> length ls = length gs
     | Inl e \<Rightarrow> length ls < length gs \<and>
                snd (iteration w n (i + length ls) (gs ! length ls) no_output) = Inl e"
    by simp_all
  show ?thesis
  proof (cases r)
    case (Inl e)
    with ls(3) have "length ls < length gs"
      "snd (iteration w n (i + length ls) (gs ! length ls) no_output) = Inl e" by simp_all
    then have "\<not> (\<forall>j < length gs. snd (iteration w n (i + j) (gs ! j) no_output) = Inr ())"
      by (metis Inl_Inr_False)
    with run Inl show ?thesis by simp
  next
    case (Inr x)
    with ls(3) have "length ls = length gs" by simp
    with ls(2) have "\<forall>j < length gs. snd (iteration w n (i + j) (gs ! j) no_output) = Inr ()"
      by simp
    with run Inr show ?thesis by simp
  qed
qed

lemma run_all_error:
  assumes "run_all w n i gs out = (out', Inl e)"
  shows "e \<noteq> SystemExit c"
proof -
  from run_all_stdout [OF assms] obtain ls where
    "stdout out' = stdout out @ ls \<and> length ls \<le> length gs \<and>
     (\<forall>j < length ls. \<exists>p f t.
         run_group (runs w (i + j)) (gs ! j) = Inr (gs ! j, p, f, t) \<and>
         summary_line (gs ! j) p f t = Inr (ls ! j)) \<and>
     (\<forall>j < length ls. snd (iteration w n (i + j) (gs ! j) no_output) = Inr ()) \<and>
     (case Inl e :: exn + unit of
        Inr _ \<Rightarrow> length ls = length gs
      | Inl e \<Rightarrow> length ls < length gs \<and>
                 snd (iteration w n (i + length ls) (gs ! length ls) no_output) = Inl e)"
    by (rule exE)
  then have "snd (iteration w n (i + length ls) (gs ! length ls) no_output) = Inl e"
    by simp
  then show ?thesis by (rule iteration_error)
qed

lemma main_help: "argv w = Help \<Longrightarrow> snd (main w) = Inl (SystemExit 0)"
  by (simp add: main_def parse_args_def)

lemma main_usage: "argv w = Usage_Error \<Longrightarrow> snd (main w) = Inl (SystemExit 2)"
  by (simp add: main_def parse_args_def)

lemma main_unreadable:
  "argv w = Run \<Longrightarrow> parse_groups (document w) = Inl e \<Longrightarrow> main w = (no_output, Inl e)"
  by (simp add: main_def parse_args_def)

lemma main_no_groups:
  "argv w = Run \<Longrightarrow> parse_groups (document w) = Inr [] \<Longrightarrow>
   main w =
     (case print_line (stderr_print w 0 (u ''No groups found to run.'')) []
             (u ''No groups found to run.'') of
        Inl e \<Rightarrow> (no_output, Inl e)
      | Inr err \<Rightarrow> (\<lparr>stdout = [], stderr = err\<rparr>, Inr 1))"
  by (simp add: main_def parse_args_def)

lemma main_groups:
  "argv w = Run \<Longrightarrow> parse_groups (document w) = Inr groups \<Longrightarrow> groups \<noteq> [] \<Longrightarrow>
   run_all w (length groups) 1 groups no_output = (out, r) \<Longrightarrow>
   main w = (out, case r of Inl e \<Rightarrow> Inl e | Inr _ \<Rightarrow> Inr 0)"
  by (simp add: main_def parse_args_def split: sum.splits)

lemma parse_groups_error: "parse_groups d = Inl e \<Longrightarrow> e = OSError"
  by (auto simp: parse_groups_def split: option.splits)

lemma exit_status_exception: "\<forall>c. e \<noteq> SystemExit c \<Longrightarrow> exit_status True (Inl e) = 1"
  by (cases e) (simp_all add: exit_status_def)

lemma main_comment_only:
  "main \<lparr>argv = Run, argparse_text = [],
         document = Some [u ''# Test262 groups'' @ [10], [10]],
         runs = \<lambda>i. \<lparr>makedirs_ok = True, runner = Exited 0, trx = Absent\<rparr>,
         stdout_print = \<lambda>i l. Printed, stderr_print = \<lambda>i l. Printed\<rparr>
     = (\<lparr>stdout = [], stderr = [u ''No groups found to run.'']\<rparr>, Inr 1)"
  by (simp add: main_defs text_defs)

lemma main_failing_group:
  "main \<lparr>argv = Run, argparse_text = [],
         document = Some [u ''12/15 RegExp'' @ [10]],
         runs = \<lambda>i. \<lparr>makedirs_ok = True, runner = Exited 1,
           trx = Document (Some [u ''passed'' \<mapsto> u ''8'', u ''failed'' \<mapsto> u ''2''])\<rparr>,
         stdout_print = \<lambda>i l. Printed, stderr_print = \<lambda>i l. Printed\<rparr>
     = (\<lparr>stdout = [u ''8/10 RegExp''], stderr = [u ''[1/1] Running RegExp...'']\<rparr>, Inr 0)"
  by (simp add: main_defs run_defs text_defs re_defs)


text \<open>
  Claim C7, as the code has it. \<open>main\<close> returns the status 1 if and only if the command
  line is accepted, zero groups are parsed from the document and the notice of that is
  printed; whenever zero groups are parsed, nothing is printed to standard output and the
  exit status of the process is 1. \<open>main\<close> returns the status 0 if and only if the command
  line is accepted, at least one group is parsed and the iteration of every group completes
  (its notice is printed, its run returns, its line is formed and printed, see
  \<open>iteration_completes\<close>), whatever the counts of the groups are; the exit status is 0
  then, and for \<open>--help\<close>, and in no other case. \<open>main\<close> returns no other status than 0
  and 1. (The exit statuses are those of a process whose streams are flushed at its end.)
\<close>

theorem main_status:
  "(snd (main w) = Inr 1 \<longleftrightarrow>
      argv w = Run \<and> parse_groups (document w) = Inr [] \<and>
      stderr_print w 0 (u ''No groups found to run.'') = Printed) \<and>
   (argv w = Run \<and> parse_groups (document w) = Inr [] \<longrightarrow>
      stdout (fst (main w)) = [] \<and> exit_status True (snd (main w)) = 1) \<and>
   (snd (main w) = Inr 0 \<longleftrightarrow>
      argv w = Run \<and>
      (\<exists>groups. parse_groups (document w) = Inr groups \<and> groups \<noteq> [] \<and>
         (\<forall>j < length groups.
            snd (iteration w (length groups) (Suc j) (groups ! j) no_output) = Inr ()))) \<and>
   (exit_status True (snd (main w)) = 0 \<longleftrightarrow> argv w = Help \<or> snd (main w) = Inr 0) \<and>
   (\<forall>c. snd (main w) = Inr c \<longrightarrow> c = 0 \<or> c = 1)"
proof (cases "argv w")
  case Help
  then show ?thesis by (simp add: main_help exit_status_def)
next
  case Usage_Error
  then show ?thesis by (simp add: main_usage exit_status_def)
next
  case Run
  show ?thesis
  proof (cases "parse_groups (document w)")
    case (Inl e)
    then have "e = OSError" by (rule parse_groups_error)
    with Run Inl show ?thesis by (simp add: main_unreadable exit_status_def)
  next
    case (Inr groups)
    show ?thesis
    proof (cases "groups = []")
      case True
      show ?thesis
      proof (cases "stderr_print w 0 (u ''No groups found to run.'')")
        case Printed
        with Run Inr True show ?thesis
          by (simp add: main_no_groups print_line_def exit_status_def)
      next
        case Encode_Error
        with Run Inr True show ?thesis
          by (simp add: main_no_groups print_line_def exit_status_def no_output_def)
      next
        case Write_Error
        with Run Inr True show ?thesis
          by (simp add: main_no_groups print_line_def exit_status_def no_output_def)
      qed
    next
      case False
      obtain out r where run: "run_all w (length groups) 1 groups no_output = (out, r)"
        by (cases "run_all w (length groups) 1 groups no_output") auto
      from main_groups [OF Run Inr False run]
      have m: "main w = (out, case r of Inl e \<Rightarrow> Inl e | Inr _ \<Rightarrow> Inr 0)" .
      have all: "r = Inr () \<longleftrightarrow>
          (\<forall>j < length groups.
             snd (iteration w (length groups) (Suc j) (groups ! j) no_output) = Inr ())"
        using run_all_returns [of w "length groups" 1 groups no_output] run by simp
      show ?thesis
      proof (cases r)
        case (Inl e)
        with run have "\<forall>c. e \<noteq> SystemExit c" using run_all_error by blast
        then have "exit_status True (Inl e) = 1" by (rule exit_status_exception)
        with m Inl Run Inr False all show ?thesis by simp
      next
        case (Inr x)
        with m Run \<open>parse_groups (document w) = Inr groups\<close> False all show ?thesis
          by (simp add: exit_status_def)
      qed
    qed
  qed
qed

theorem main_status_witness:
  "snd (main \<lparr>argv = Run, argparse_text = [],
         document = Some [u ''# Test262 groups'' @ [10], [10]],
         runs = \<lambda>i. \<lparr>makedirs_ok = True, runner = Exited 0, trx = Absent\<rparr>,
         stdout_print = \<lambda>i l. Printed, stderr_print = \<lambda>i l. Printed\<rparr>) = Inr 1 \<and>
   parse_groups (Some [u ''# Test262 groups'' @ [10], [10]]) = Inr [] \<and>
   stdout (fst (main \<lparr>argv = Run, argparse_text = [],
         document = Some [u ''# Test262 groups'' @ [10], [10]],
         runs = \<lambda>i. \<lparr>makedirs_ok = True, runner = Exited 0, trx = Absent\<rparr>,
         stdout_print = \<lambda>i l. Printed, stderr_print = \<lambda>i l. Printed\<rparr>)) = [] \<and>
   exit_status True (snd (main \<lparr>argv = Run, argparse_text = [],
         document = Some [u ''# Test262 groups'' @ [10], [10]],
         runs = \<lambda>i. \<lparr>makedirs_ok = True, runner = Exited 0, trx = Absent\<rparr>,
         stdout_print = \<lambda>i l. Printed, stderr_print = \<lambda>i l. Printed\<rparr>)) = 1 \<and>
   snd (main \<lparr>argv = Run, argparse_text = [],
         document = Some [u ''12/15 RegExp'' @ [10]],
         runs = \<lambda>i. \<lparr>makedirs_ok = True, runner = Exited 1,
           trx = Document (Some [u ''passed'' \<mapsto> u ''8'', u ''failed'' \<mapsto> u ''2''])\<rparr>,
         stdout_print = \<lambda>i l. Printed, stderr_print = \<lambda>i l. Printed\<rparr>) = Inr 0 \<and>
   exit_status True (snd (main \<lparr>argv = Run, argparse_text = [],
         document = Some [u ''12/15 RegExp'' @ [10]],
         runs = \<lambda>i. \<lparr>makedirs_ok = True, runner = Exited 1,
           trx = Document (Some [u ''passed'' \<mapsto> u ''8'', u ''failed'' \<mapsto> u ''2''])\<rparr>,
         stdout_print = \<lambda>i l. Printed, stderr_print = \<lambda>i l. Printed\<rparr>)) = 0 \<and>
   exit_status True (snd (main \<lparr>argv = Help, argparse_text = [u ''usage''],
         document = None,
         runs = \<lambda>i. \<lparr>makedirs_ok = True, runner = Exited 0, trx = Absent\<rparr>,
         stdout_print = \<lambda>i l. Printed, stderr_print = \<lambda>i l. Printed\<rparr>)) = 0"
  using
    main_status [of "\<lparr>argv = Help, argparse_text = [u ''usage''],
         document = None,
         runs = \<lambda>i. \<lparr>makedirs_ok = True, runner = Exited 0, trx = Absent\<rparr>,
         stdout_print = \<lambda>i l. Printed, stderr_print = \<lambda>i l. Printed\<rparr>"]
    main_status [of "\<lparr>argv = Run, argparse_text = [],
         document = Some [u ''# Test262 groups'' @ [10], [10]],
         runs = \<lambda>i. \<lparr>makedirs_ok = True, runner = Exited 0, trx = Absent\<rparr>,
         stdout_print = \<lambda>i l. Printed, stderr_print = \<lambda>i l. Printed\<rparr>"]
    main_status [of "\<lparr>argv = Run, argparse_text = [],
         document = Some [u ''12/15 RegExp'' @ [10]],
         runs = \<lambda>i. \<lparr>makedirs_ok = True, runner = Exited 1,
           trx = Document (Some [u ''passed'' \<mapsto> u ''8'', u ''failed'' \<mapsto> u ''2''])\<rparr>,
         stdout_print = \<lambda>i l. Printed, stderr_print = \<lambda>i l. Printed\<rparr>"]
  by (simp add: main_comment_only main_failing_group exit_status_def)

text \<open>
  The claim says that the exit status is 1 only if zero groups are parsed. When the runner
  cannot be started, the exception leaves \<open>run_group\<close> and \<open>main\<close>, and the process ends
  with status 1 although a group was parsed.
\<close>

theorem status_one_with_a_group:
  "parse_groups (Some [u ''Promise'' @ [10]]) = Inr [u ''Promise''] \<and>
   snd (main \<lparr>argv = Run, argparse_text = [], document = Some [u ''Promise'' @ [10]],
         runs = \<lambda>i. \<lparr>makedirs_ok = True, runner = Not_Started, trx = Absent\<rparr>,
         stdout_print = \<lambda>i l. Printed, stderr_print = \<lambda>i l. Printed\<rparr>)
     = Inl FileNotFoundError \<and>
   exit_status True (snd (main \<lparr>argv = Run, argparse_text = [],
         document = Some [u ''Promise'' @ [10]],
         runs = \<lambda>i. \<lparr>makedirs_ok = True, runner = Not_Started, trx = Absent\<rparr>,
         stdout_print = \<lambda>i l. Printed, stderr_print = \<lambda>i l. Printed\<rparr>)) = 1"
  by (simp add: main_defs run_defs text_defs re_defs exit_status_def)




end
